theory Spec2Isabelle
  imports Main
begin

section \<open>Errors and outcomes\<close>

text \<open>
  A JavaScript \<^verbatim>\<open>Error\<close> is its message. An awaited call either returns a value or
  throws; both leave a state behind, so an outcome carries the state it ends in.
\<close>

datatype error = Error string

datatype ('a, 's) outcome = Returns 'a 's | Throws error 's

fun finalState :: "('a, 's) outcome \<Rightarrow> 's" where
  "finalState (Returns _ s) = s"
| "finalState (Throws _ s) = s"

fun isReturn :: "('a, 's) outcome \<Rightarrow> bool" where
  "isReturn (Returns _ _) = True"
| "isReturn (Throws _ _) = False"

fun returned :: "('a, 's) outcome \<Rightarrow> 'a option" where
  "returned (Returns v _) = Some v"
| "returned (Throws _ _) = None"

fun thrown :: "('a, 's) outcome \<Rightarrow> error option" where
  "thrown (Returns _ _) = None"
| "thrown (Throws e _) = Some e"

section \<open>Widget suppressor: request interception\<close>

subsection \<open>Lower-casing and the wildcard patterns\<close>

text \<open>
  \<^verbatim>\<open>request.url().toLowerCase()\<close>. A URL is a string of code units below 256; the
  upper-case letters among them are A-Z and the Latin-1 capitals (0xC0-0xDE without the
  multiplication sign 0xD7), each 32 below its lower-case letter.
\<close>

definition lowerChar :: "char \<Rightarrow> char" where
  "lowerChar c =
     (let n = (of_char c :: nat) in
      if (65 \<le> n \<and> n \<le> 90) \<or> (192 \<le> n \<and> n \<le> 222 \<and> n \<noteq> 215)
      then char_of (n + 32) else c)"

definition toLowerCase :: "string \<Rightarrow> string" where
  "toLowerCase s = map lowerChar s"

text \<open>The \<^verbatim>\<open>blockPatterns\<close> array of \<^verbatim>\<open>blockChatWidgets\<close>, in its order.\<close>

definition blockPatterns :: "string list" where
  "blockPatterns =
    [''crisp.chat'', ''intercom.io'', ''messenger.com'', ''facebook.com/*/customer_chat'',
     ''drift.com'', ''tawk.to'', ''user.com'', ''zoho.com/salesiq'', ''hubspot.com/messaging'',
     ''livechatinc.com'', ''zopim.com'', ''freshchat.com'', ''olark.com'',
     ''zendesk.com/embeddable'', ''gorgias.chat'', ''smooch.io'', ''purechat.com'',
     ''js.hsforms.net'', ''js.usemessages.com'', ''js.hs-scripts.com'',
     ''js.hscollectedforms.net'', ''js.hsadspixel.net'', ''js.hs-analytics.net'',
     ''js.hs-banner.com'', ''*.hubspot.com/conversations-visitor'', ''meetings.hubspot.com'',
     ''api.hubspot.com/conversations'', ''*.hubspot.net'']"

text \<open>
  \<^verbatim>\<open>pattern.replace(/\./g, "\\.").replace(/\*/g, ".*")\<close>: every dot gets a backslash
  (code 0x5C) in front, then every star becomes dot-star.
\<close>

definition escapeDots :: "string \<Rightarrow> string" where
  "escapeDots p = concat (map (\<lambda>c. if c = CHR ''.'' then [CHR 0x5C, CHR ''.''] else [c]) p)"

definition expandStars :: "string \<Rightarrow> string" where
  "expandStars p = concat (map (\<lambda>c. if c = CHR ''*'' then ''.*'' else [c]) p)"

definition regexPattern :: "string \<Rightarrow> string" where
  "regexPattern p = expandStars (escapeDots p)"

text \<open>
  \<^verbatim>\<open>new RegExp(regexPattern)\<close>, for the fragment the translation produces: an escaped dot is
  a literal dot, dot-star is any run of characters that are not line terminators, and a
  character that is no metacharacter stands for itself. Any other source text is refused
  with \<open>None\<close> (the constructor's SyntaxError, or syntax outside the fragment).
\<close>

datatype retok = Lit char | AnyStar

definition metachars :: "char list" where
  "metachars = [CHR 0x5C, CHR ''^'', CHR ''$'', CHR ''.'', CHR ''*'', CHR ''+'', CHR ''?'',
                CHR ''('', CHR '')'', CHR ''['', CHR '']'', CHR ''{'', CHR ''}'', CHR ''|'']"

fun parseRegex :: "string \<Rightarrow> retok list option" where
  "parseRegex [] = Some []"
| "parseRegex (c # cs) =
     (if c = CHR 0x5C then
        (case cs of
           [] \<Rightarrow> None
         | d # ds \<Rightarrow> if d = CHR ''.'' then map_option ((#) (Lit d)) (parseRegex ds) else None)
      else if c = CHR ''.'' then
        (case cs of
           [] \<Rightarrow> None
         | d # ds \<Rightarrow> if d = CHR ''*'' then map_option ((#) AnyStar) (parseRegex ds) else None)
      else if c \<in> set metachars then None
      else map_option ((#) (Lit c)) (parseRegex cs))"

definition lineTerminator :: "char \<Rightarrow> bool" where
  "lineTerminator c = (c = CHR 0x0A \<or> c = CHR 0x0D)"

text \<open>
  \<^verbatim>\<open>RegExp.prototype.test\<close> without flags: the pattern may match at any position of the
  input (\<open>matchAnywhere\<close>); \<open>matchHere\<close> matches a prefix of its input.
\<close>

fun matchHere :: "retok list \<Rightarrow> string \<Rightarrow> bool" where
  "matchHere [] s = True"
| "matchHere (Lit c # ts) [] = False"
| "matchHere (Lit c # ts) (d # s) = (c = d \<and> matchHere ts s)"
| "matchHere (AnyStar # ts) [] = matchHere ts []"
| "matchHere (AnyStar # ts) (d # s) =
     (matchHere ts (d # s) \<or> (\<not> lineTerminator d \<and> matchHere (AnyStar # ts) s))"

fun matchAnywhere :: "retok list \<Rightarrow> string \<Rightarrow> bool" where
  "matchAnywhere ts [] = matchHere ts []"
| "matchAnywhere ts (d # s) = (matchHere ts (d # s) \<or> matchAnywhere ts s)"

definition regexTest :: "string \<Rightarrow> string \<Rightarrow> error + bool" where
  "regexTest p url =
     (case parseRegex (regexPattern p) of
        None \<Rightarrow> Inl (Error ''Invalid regular expression'')
      | Some ts \<Rightarrow> Inr (matchAnywhere ts url))"

text \<open>
  \<^verbatim>\<open>blockPatterns.some(...)\<close>: the patterns are tried in order up to the first that
  matches; a pattern whose regular expression cannot be built throws there.
\<close>

fun somePattern :: "string list \<Rightarrow> string \<Rightarrow> error + bool" where
  "somePattern [] url = Inr False"
| "somePattern (p # ps) url =
     (case regexTest p url of
        Inl e \<Rightarrow> Inl e
      | Inr True \<Rightarrow> Inr True
      | Inr False \<Rightarrow> somePattern ps url)"

definition matchesBlockPattern :: "string \<Rightarrow> bool" where
  "matchesBlockPattern url = (somePattern blockPatterns (toLowerCase url) = Inr True)"

text \<open>A pattern without wildcard: dots and characters that are no metacharacters.\<close>

definition plainPattern :: "string \<Rightarrow> bool" where
  "plainPattern p = list_all (\<lambda>c. c = CHR ''.'' \<or> c \<notin> set metachars) p"

subsection \<open>An intercepted request\<close>

text \<open>
  The browser's side of an intercepted request: the \<^verbatim>\<open>abort()\<close> and \<^verbatim>\<open>continue()\<close>
  calls that took effect, oldest first (none while the request is pending), and how many
  such calls were made. A call on a request that is already resolved throws
  "Request is already handled!" (the message the handler's catch looks for). A call on a
  pending request can fail as well: \<open>faults k\<close> is the error of the \<open>k\<close>-th call, if
  it has one; a failed call has no effect.
\<close>

datatype resolution = Aborted | Continued

record request =
  reqUrl :: string
  resolutions :: "resolution list"
  attempts :: nat

type_synonym faults = "nat \<Rightarrow> error option"

definition alreadyHandled :: error where
  "alreadyHandled = Error ''Request is already handled!''"

definition resolve :: "faults \<Rightarrow> resolution \<Rightarrow> request \<Rightarrow> (unit, request) outcome" where
  "resolve fl a r =
     (let r' = r\<lparr>attempts := Suc (attempts r)\<rparr> in
      if resolutions r \<noteq> [] then Throws alreadyHandled r'
      else case fl (attempts r) of
             Some e \<Rightarrow> Throws e r'
           | None \<Rightarrow> Returns () (r'\<lparr>resolutions := resolutions r @ [a]\<rparr>))"

definition request_abort :: "faults \<Rightarrow> request \<Rightarrow> (unit, request) outcome" where
  "request_abort fl r = resolve fl Aborted r"

definition request_continue :: "faults \<Rightarrow> request \<Rightarrow> (unit, request) outcome" where
  "request_continue fl r = resolve fl Continued r"

text \<open>
  The \<^verbatim>\<open>page.on("request", ...)\<close> handler of \<^verbatim>\<open>blockChatWidgets\<close>. Its \<^verbatim>\<open>try\<close> block
  classifies the URL and aborts or continues; its \<^verbatim>\<open>catch\<close> block calls
  \<^verbatim>\<open>continue()\<close> once more and ignores what that throws, so the handler itself never
  throws. (The warning it prints is not modelled.)
\<close>

definition onRequest :: "string list \<Rightarrow> faults \<Rightarrow> request \<Rightarrow> request" where
  "onRequest pats fl r =
     (case (case somePattern pats (toLowerCase (reqUrl r)) of
              Inl e \<Rightarrow> Throws e r
            | Inr True \<Rightarrow> request_abort fl r
            | Inr False \<Rightarrow> request_continue fl r) of
        Returns _ r1 \<Rightarrow> r1
      | Throws e r1 \<Rightarrow>
          (case request_continue fl r1 of
             Returns _ r2 \<Rightarrow> r2
           | Throws _ r2 \<Rightarrow> r2))"

definition blockChatWidgets_onRequest :: "faults \<Rightarrow> request \<Rightarrow> request" where
  "blockChatWidgets_onRequest fl r = onRequest blockPatterns fl r"

text \<open>Requests and fault plans used in the examples.\<close>

definition intercomRequest :: request where
  "intercomRequest =
     \<lparr>reqUrl = ''https://Widget.Intercom.io/widget/abc'', resolutions = [], attempts = 0\<rparr>"

definition exampleRequest :: request where
  "exampleRequest = \<lparr>reqUrl = ''https://example.com/app.js'', resolutions = [], attempts = 0\<rparr>"

definition noFaults :: faults where
  "noFaults k = None"

definition firstCallFails :: faults where
  "firstCallFails k = (if k = 0 then Some (Error ''Protocol error'') else None)"

definition everyCallFails :: faults where
  "everyCallFails k = Some (Error ''Protocol error'')"

section \<open>The page\<close>

text \<open>
  A page handle is modelled by what the pipeline reads and writes of it: the host's
  clock (\<^verbatim>\<open>Date.now()\<close>, in ms), the number of awaited operations so far (\<open>tick\<close>, the
  logical time that the page's own behaviour is indexed by), the scroll offset, the
  inline styles of the document's elements, the \<^verbatim>\<open>window.__originalStickyStyles\<close> slot, the
  arguments of the \<^verbatim>\<open>page.screenshot\<close> calls made, the viewport and default timeout set
  on the handle, and whether the handle is closed.

  An element's inline style is its declaration block (\<^verbatim>\<open>element.style\<close>): reading
  \<^verbatim>\<open>style.cssText\<close> gives the block and assigning to it replaces the block, so a style
  string is represented by the declarations it denotes. \<open>styleAttr\<close> is the text of the
  \<^verbatim>\<open>style\<close> attribute, which the attribute selectors read; a write through
  \<^verbatim>\<open>element.style\<close> re-serialises it.
\<close>

type_synonym elem = nat

record decl =
  property :: string
  cssValue :: string
  important :: bool

type_synonym style = "decl list"

record element =
  tagName :: string
  roleAttr :: "string option"
  sheetPosition :: "(string \<times> bool) option"

datatype imageFormat = Jpeg | Png

record screenshotArgs =
  argFullPage :: bool
  argType :: imageFormat
  argQuality :: "int option"

record page =
  clock :: nat
  tick :: nat
  scrollY :: nat
  elements :: "elem list"
  node :: "elem \<Rightarrow> element"
  styleAttr :: "elem \<Rightarrow> string"
  cssText :: "elem \<Rightarrow> style"
  originalStickyStyles :: "(elem \<times> style) list option"
  screenshotCalls :: "screenshotArgs list"
  viewport :: "int \<times> int"
  defaultTimeout :: int
  closed :: bool

text \<open>
  What the page does on its own is the environment, a function of the logical time:
  \<^verbatim>\<open>window.innerHeight\<close>, the document height (the maximum of the four height accessors
  of \<^verbatim>\<open>getScrollMetrics\<close>), the counts \<^verbatim>\<open>getLazyLoadMetrics\<close> would read, whether the
  page operation awaited at that tick throws, and how many ms the operation awaited at
  that tick takes beyond its nominal duration. \<open>rendered\<close> is the encoded image the
  browser produces for given capture arguments. The last four fields say whether the
  host-side calls made for this request fail: compiling the filter list, launching the
  browser, \<^verbatim>\<open>browser.newPage()\<close> and \<^verbatim>\<open>writeFile\<close>.
\<close>

record ScrollMetrics =
  viewportHeight :: nat
  documentHeight :: nat
  scrollTop :: nat

record LazyLoadMetrics =
  imageCount :: nat
  iframeCount :: nat
  pendingNetworkRequests :: nat

record env =
  innerHeight :: "nat \<Rightarrow> nat"
  docHeight :: "nat \<Rightarrow> nat"
  lazyLoad :: "nat \<Rightarrow> LazyLoadMetrics"
  pageFault :: "nat \<Rightarrow> error option"
  latency :: "nat \<Rightarrow> nat"
  rendered :: "screenshotArgs \<Rightarrow> nat list"
  fromListsFault :: "error option"
  launchFault :: "error option"
  newPageFault :: "error option"
  writeFileFault :: "error option"

definition elapse :: "env \<Rightarrow> nat \<Rightarrow> page \<Rightarrow> page" where
  "elapse w d p = p\<lparr>clock := clock p + d + latency w (tick p), tick := Suc (tick p)\<rparr>"

text \<open>\<^verbatim>\<open>await new Promise((resolve) => setTimeout(resolve, d))\<close>: never throws.\<close>

definition sleep :: "env \<Rightarrow> nat \<Rightarrow> page \<Rightarrow> page" where
  "sleep w d p = elapse w d p"

text \<open>
  \<^verbatim>\<open>await page.evaluate(script)\<close>, and every other awaited operation on the page handle: it
  throws when the environment says so, and otherwise runs the script on the page and
  returns its value.
\<close>

definition evaluate :: "env \<Rightarrow> (page \<Rightarrow> 'a \<times> page) \<Rightarrow> page \<Rightarrow> ('a, page) outcome" where
  "evaluate w script p =
     (case pageFault w (tick p) of
        Some e \<Rightarrow> Throws e (elapse w 0 p)
      | None \<Rightarrow> (case script p of (v, p') \<Rightarrow> Returns v (elapse w 0 p')))"

text \<open>Sequencing of awaited calls: the first throw ends the sequence.\<close>

definition andThen ::
  "('a, 's) outcome \<Rightarrow> ('a \<Rightarrow> 's \<Rightarrow> ('b, 's) outcome) \<Rightarrow> ('b, 's) outcome" where
  "andThen m f = (case m of Throws e s \<Rightarrow> Throws e s | Returns v s \<Rightarrow> f v s)"

section \<open>Overlay neutralizer\<close>

subsection \<open>Inline styles\<close>

fun joinWith :: "string \<Rightarrow> string list \<Rightarrow> string" where
  "joinWith sep [] = []"
| "joinWith sep [x] = x"
| "joinWith sep (x # y # ys) = x @ sep @ joinWith sep (y # ys)"

definition serializeDecl :: "decl \<Rightarrow> string" where
  "serializeDecl d =
     property d @ '': '' @ cssValue d @ (if important d then '' !important;'' else '';'')"

definition serialize :: "style \<Rightarrow> string" where
  "serialize ds = joinWith '' '' (map serializeDecl ds)"

definition writeStyle :: "elem \<Rightarrow> style \<Rightarrow> page \<Rightarrow> page" where
  "writeStyle e s p =
     p\<lparr>cssText := (cssText p)(e := s), styleAttr := (styleAttr p)(e := serialize s)\<rparr>"

text \<open>\<^verbatim>\<open>element.style.cssText = s\<close>.\<close>

definition setCssText :: "elem \<Rightarrow> style \<Rightarrow> page \<Rightarrow> page" where
  "setCssText e s p = writeStyle e s p"

text \<open>
  \<^verbatim>\<open>element.style.setProperty(name, v, "important")\<close>: the declaration of that property is
  replaced where it stands, or added at the end.
\<close>

fun setDecl :: "string \<Rightarrow> string \<Rightarrow> bool \<Rightarrow> style \<Rightarrow> style" where
  "setDecl n v i [] = [\<lparr>property = n, cssValue = v, important = i\<rparr>]"
| "setDecl n v i (d # ds) =
     (if property d = n then \<lparr>property = n, cssValue = v, important = i\<rparr> # ds
      else d # setDecl n v i ds)"

definition setProperty :: "elem \<Rightarrow> string \<Rightarrow> string \<Rightarrow> bool \<Rightarrow> page \<Rightarrow> page" where
  "setProperty e n v i p = writeStyle e (setDecl n v i (cssText p e)) p"

text \<open>
  \<^verbatim>\<open>window.getComputedStyle(element).position\<close>: an important inline declaration wins, then
  an important stylesheet declaration, then a plain inline one, then a plain stylesheet
  one; the initial value is \<^verbatim>\<open>static\<close>.
\<close>

definition computedPosition :: "page \<Rightarrow> elem \<Rightarrow> string" where
  "computedPosition p e =
     (case find (\<lambda>d. property d = ''position'') (cssText p e) of
        Some d \<Rightarrow>
          if important d then cssValue d
          else (case sheetPosition (node p e) of
                  Some (v, True) \<Rightarrow> v
                | _ \<Rightarrow> cssValue d)
      | None \<Rightarrow>
          (case sheetPosition (node p e) of
             Some (v, _) \<Rightarrow> v
           | None \<Rightarrow> ''static''))"

definition isStickyPosition :: "string \<Rightarrow> bool" where
  "isStickyPosition pos = (pos = ''fixed'' \<or> pos = ''sticky'')"

subsection \<open>handleStickyElements and restoreStickyElements\<close>

fun containsStr :: "string \<Rightarrow> string \<Rightarrow> bool" where
  "containsStr sub [] = (sub = [])"
| "containsStr sub (c # s) = (take (length sub) (c # s) = sub \<or> containsStr sub s)"

definition stickySelectors :: "string list" where
  "stickySelectors =
     [''position: fixed'', ''position:fixed'', ''position: sticky'', ''position:sticky'']"

definition matchesStickySelectors :: "page \<Rightarrow> elem \<Rightarrow> bool" where
  "matchesStickySelectors p e = list_ex (\<lambda>sub. containsStr sub (styleAttr p e)) stickySelectors"

text \<open>\<^verbatim>\<open>new Set([...])\<close>: the elements in the order of their first occurrence.\<close>

definition insertionOrder :: "'a list \<Rightarrow> 'a list" where
  "insertionOrder xs = rev (remdups (rev xs))"

definition stickyElements :: "page \<Rightarrow> elem list" where
  "stickyElements p =
     insertionOrder
       (filter (matchesStickySelectors p) (elements p) @
        filter (\<lambda>e. isStickyPosition (computedPosition p e)) (elements p))"

text \<open>The body of the \<^verbatim>\<open>for\<close> loop of \<^verbatim>\<open>modifyStickyElements\<close>, after the record is pushed.\<close>

definition flattenElement :: "elem \<Rightarrow> page \<Rightarrow> page" where
  "flattenElement e p =
     (let p1 = setProperty e ''position'' ''static'' True p in
      if toLowerCase (tagName (node p e)) = ''header'' \<or>
         toLowerCase (tagName (node p e)) = ''nav'' \<or>
         roleAttr (node p e) = Some ''navigation''
      then setProperty e ''z-index'' ''auto'' True (setProperty e ''top'' ''0'' True p1)
      else p1)"

fun neutralizeAll ::
  "elem list \<Rightarrow> (elem \<times> style) list \<Rightarrow> page \<Rightarrow> (elem \<times> style) list \<times> page" where
  "neutralizeAll [] originalStyles p = (originalStyles, p)"
| "neutralizeAll (e # es) originalStyles p =
     (if isStickyPosition (computedPosition p e)
      then neutralizeAll es (originalStyles @ [(e, cssText p e)]) (flattenElement e p)
      else neutralizeAll es originalStyles p)"

definition modifyStickyElements :: "page \<Rightarrow> (elem \<times> style) list \<times> page" where
  "modifyStickyElements p = neutralizeAll (stickyElements p) [] p"

definition handleStickyScript :: "page \<Rightarrow> unit \<times> page" where
  "handleStickyScript p =
     (case modifyStickyElements p of
        (originalStyles, p') \<Rightarrow> ((), p'\<lparr>originalStickyStyles := Some originalStyles\<rparr>))"

definition handleStickyElements :: "env \<Rightarrow> page \<Rightarrow> (unit, page) outcome" where
  "handleStickyElements w p = evaluate w handleStickyScript p"

fun restoreAll :: "(elem \<times> style) list \<Rightarrow> page \<Rightarrow> page" where
  "restoreAll [] p = p"
| "restoreAll ((e, s) # rest) p = restoreAll rest (setCssText e s p)"

text \<open>
  \<^verbatim>\<open>if (originalStyles)\<close> is false for the undefined slot only: an empty array is truthy
  and its loop does nothing. The script does not assign to the slot.
\<close>

definition restoreStickyScript :: "page \<Rightarrow> unit \<times> page" where
  "restoreStickyScript p =
     (case originalStickyStyles p of
        None \<Rightarrow> ((), p)
      | Some originalStyles \<Rightarrow> ((), restoreAll originalStyles p))"

definition restoreStickyElements :: "env \<Rightarrow> page \<Rightarrow> (unit, page) outcome" where
  "restoreStickyElements w p = evaluate w restoreStickyScript p"

section \<open>Stability monitor\<close>

text \<open>
  \<^verbatim>\<open>getLazyLoadMetrics\<close>: the script reads the number of images, of frames and of resource
  entries without a response end, as the page has them at that moment.
\<close>

definition lazyLoadScript :: "env \<Rightarrow> page \<Rightarrow> LazyLoadMetrics \<times> page" where
  "lazyLoadScript w p = (lazyLoad w (tick p), p)"

definition getLazyLoadMetrics :: "env \<Rightarrow> page \<Rightarrow> (LazyLoadMetrics, page) outcome" where
  "getLazyLoadMetrics w p = evaluate w (lazyLoadScript w) p"

text \<open>
  The stability test of \<^verbatim>\<open>waitForLazyLoad\<close>, used for the tentative check (current sample
  against the previous one) and for the confirmatory check (final sample against the
  current one).
\<close>

definition isStable :: "LazyLoadMetrics \<Rightarrow> LazyLoadMetrics \<Rightarrow> bool" where
  "isStable cur prev =
     (imageCount cur = imageCount prev \<and> iframeCount cur = iframeCount prev \<and>
      pendingNetworkRequests cur = 0)"


text \<open>
  How \<^verbatim>\<open>waitForLazyLoad\<close> came back: through its \<^verbatim>\<open>return\<close> statement, or by falling out of
  the loop (where it prints "Lazy load wait timeout reached").
\<close>

datatype waitExit = Stabilized | WaitTimedOut

lemma clock_getLazyLoadMetrics:
  "getLazyLoadMetrics w p = Returns m p1 \<Longrightarrow> clock p \<le> clock p1"
  by (auto simp: getLazyLoadMetrics_def evaluate_def elapse_def lazyLoadScript_def
      split: option.splits)

lemma clock_sleep: "clock (sleep w d p) = clock p + d + latency w (tick p)"
  by (simp add: sleep_def elapse_def)

text \<open>
  The \<^verbatim>\<open>while (Date.now() - startTime < timeout)\<close> loop of \<^verbatim>\<open>waitForLazyLoad\<close>. The timeout
  is a number of ms; against the integral clock a fractional timeout behaves as the next
  integer above it.
\<close>

function waitLoop ::
  "env \<Rightarrow> int \<Rightarrow> nat \<Rightarrow> LazyLoadMetrics option \<Rightarrow> page \<Rightarrow> (waitExit, page) outcome" where
  "waitLoop w timeout startTime previousMetrics p =
     (if int (clock p) - int startTime < timeout then
        (case getLazyLoadMetrics w p of
           Throws e p1 \<Rightarrow> Throws e p1
         | Returns currentMetrics p1 \<Rightarrow>
             (case previousMetrics of
                None \<Rightarrow> waitLoop w timeout startTime (Some currentMetrics) (sleep w 100 p1)
              | Some prev \<Rightarrow>
                  if isStable currentMetrics prev then
                    (case getLazyLoadMetrics w (sleep w 200 p1) of
                       Throws e p3 \<Rightarrow> Throws e p3
                     | Returns finalCheck p3 \<Rightarrow>
                         if isStable finalCheck currentMetrics then Returns Stabilized p3
                         else waitLoop w timeout startTime (Some currentMetrics)
                                (sleep w 100 p3))
                  else waitLoop w timeout startTime (Some currentMetrics) (sleep w 100 p1)))
      else Returns WaitTimedOut p)"
  by pat_completeness auto
termination
proof (relation
    "measure (\<lambda>(w, timeout, startTime, prev, p). nat (timeout - (int (clock p) - int startTime)))",
    goal_cases)
  case 1
  then show ?case by simp
next
  case (2 w timeout startTime previousMetrics p m p1)
  then show ?case
    using clock_getLazyLoadMetrics [of w p m p1] by (simp add: clock_sleep)
next
  case (3 w timeout startTime previousMetrics p m p1 prev m3 p3)
  then show ?case
    using clock_getLazyLoadMetrics [of w p m p1]
      clock_getLazyLoadMetrics [of w "sleep w 200 p1" m3 p3]
    by (simp add: clock_sleep)
next
  case (4 w timeout startTime previousMetrics p m p1 prev)
  then show ?case
    using clock_getLazyLoadMetrics [of w p m p1] by (simp add: clock_sleep)
qed

declare waitLoop.simps [simp del]

definition waitForLazyLoad :: "env \<Rightarrow> int \<Rightarrow> page \<Rightarrow> (waitExit, page) outcome" where
  "waitForLazyLoad w timeout p = waitLoop w timeout (clock p) None p"

section \<open>Intelligent scroller\<close>

text \<open>
  \<^verbatim>\<open>getScrollMetrics\<close>: the viewport height and the document height as the page has them
  at that moment, and the scroll offset.
\<close>

definition scrollMetricsScript :: "env \<Rightarrow> page \<Rightarrow> ScrollMetrics \<times> page" where
  "scrollMetricsScript w p =
     (\<lparr>viewportHeight = innerHeight w (tick p), documentHeight = docHeight w (tick p),
       scrollTop = scrollY p\<rparr>, p)"

definition getScrollMetrics :: "env \<Rightarrow> page \<Rightarrow> (ScrollMetrics, page) outcome" where
  "getScrollMetrics w p = evaluate w (scrollMetricsScript w) p"

text \<open>
  \<^verbatim>\<open>window.scrollBy(0, step)\<close>: the browser keeps the offset within the scrollable range,
  the document height less the viewport height.
\<close>

definition scrollByScript :: "env \<Rightarrow> nat \<Rightarrow> page \<Rightarrow> unit \<times> page" where
  "scrollByScript w step p =
     ((), p\<lparr>scrollY := min (scrollY p + step) (docHeight w (tick p) - innerHeight w (tick p))\<rparr>)"

text \<open>\<^verbatim>\<open>window.scrollTo(0, 0)\<close>.\<close>

definition scrollToTopScript :: "page \<Rightarrow> unit \<times> page" where
  "scrollToTopScript p = ((), p\<lparr>scrollY := 0\<rparr>)"


definition STABILITY_THRESHOLD :: nat where
  "STABILITY_THRESHOLD = 3"

text \<open>
  Which exit the \<^verbatim>\<open>while\<close> loop of \<^verbatim>\<open>intelligentScroll\<close> took: the first \<^verbatim>\<open>break\<close> (bottom
  reached), the second (document height stable), or the loop condition.
\<close>

datatype scrollExit = ReachedBottom | HeightStable | ScrollTimedOut

lemma clock_getScrollMetrics:
  "getScrollMetrics w p = Returns m p1 \<Longrightarrow> clock p \<le> clock p1"
  by (auto simp: getScrollMetrics_def evaluate_def elapse_def scrollMetricsScript_def
      split: option.splits)

lemma clock_scrollBy:
  "evaluate w (scrollByScript w step) p = Returns u p1 \<Longrightarrow> clock p \<le> clock p1"
  by (auto simp: evaluate_def elapse_def scrollByScript_def split: option.splits)

lemma clock_waitLoop:
  "clock p \<le> clock (finalState (waitLoop w T startTime prev p))"
proof (induction w T startTime prev p rule: waitLoop.induct)
  case (1 w T startTime previousMetrics p)
  show ?case
  proof (cases "int (clock p) - int startTime < T")
    case False
    then show ?thesis by (subst waitLoop.simps) simp
  next
    case guard: True
    show ?thesis
    proof (cases "getLazyLoadMetrics w p")
      case (Throws e p1)
      then have "clock p \<le> clock p1"
        by (auto simp: getLazyLoadMetrics_def evaluate_def elapse_def lazyLoadScript_def
            split: option.splits)
      then show ?thesis
        using guard Throws by (subst waitLoop.simps) simp
    next
      case (Returns m p1)
      note first = clock_getLazyLoadMetrics [OF Returns]
      show ?thesis
      proof (cases previousMetrics)
        case None
        then show ?thesis
          using guard Returns first "1.IH"(1) [OF guard Returns None]
          by (subst waitLoop.simps) (simp add: clock_sleep)
      next
        case (Some prev)
        show ?thesis
        proof (cases "isStable m prev")
          case False
          then show ?thesis
            using guard Returns Some first "1.IH"(3) [OF guard Returns Some False]
            by (subst waitLoop.simps) (simp add: clock_sleep)
        next
          case stable: True
          show ?thesis
          proof (cases "getLazyLoadMetrics w (sleep w 200 p1)")
            case t: (Throws e p3)
            then have "clock (sleep w 200 p1) \<le> clock p3"
              by (auto simp: getLazyLoadMetrics_def evaluate_def elapse_def lazyLoadScript_def
                  split: option.splits)
            then show ?thesis
              using guard Returns Some stable first t
              by (subst waitLoop.simps) (simp add: clock_sleep)
          next
            case r: (Returns m3 p3)
            note second = clock_getLazyLoadMetrics [OF r]
            show ?thesis
            proof (cases "isStable m3 m")
              case True
              then show ?thesis
                using guard Returns Some stable r first second
                by (subst waitLoop.simps) (simp add: clock_sleep)
            next
              case False
              then show ?thesis
                using guard Returns Some stable r first second
                  "1.IH"(2) [OF guard Returns Some stable r False]
                by (subst waitLoop.simps) (simp add: clock_sleep)
            qed
          qed
        qed
      qed
    qed
  qed
qed

lemma clock_waitForLazyLoad:
  "waitForLazyLoad w timeout p = Returns x p1 \<Longrightarrow> clock p \<le> clock p1"
  using clock_waitLoop [of p w timeout "clock p" None] by (simp add: waitForLazyLoad_def)

text \<open>
  The \<^verbatim>\<open>while (Date.now() - startTime < maxTimeout)\<close> loop of \<^verbatim>\<open>intelligentScroll\<close>, with
  its variables \<^verbatim>\<open>lastDocumentHeight\<close> and \<^verbatim>\<open>stabilityCounter\<close>.
\<close>

function scrollLoop ::
  "env \<Rightarrow> int \<Rightarrow> nat \<Rightarrow> int \<Rightarrow> nat \<Rightarrow> nat \<Rightarrow> nat \<Rightarrow> page \<Rightarrow> (scrollExit, page) outcome" where
  "scrollLoop w maxTimeout scrollStep stabilityTimeout startTime lastDocumentHeight
      stabilityCounter p =
     (if int (clock p) - int startTime < maxTimeout then
        (case getScrollMetrics w p of
           Throws e p1 \<Rightarrow> Throws e p1
         | Returns metrics p1 \<Rightarrow>
             if scrollTop metrics + viewportHeight metrics \<ge> documentHeight metrics
             then Returns ReachedBottom p1
             else if documentHeight metrics = lastDocumentHeight \<and>
                     Suc stabilityCounter \<ge> STABILITY_THRESHOLD
             then Returns HeightStable p1
             else
               (case evaluate w (scrollByScript w scrollStep) p1 of
                  Throws e p2 \<Rightarrow> Throws e p2
                | Returns _ p2 \<Rightarrow>
                    (case waitForLazyLoad w stabilityTimeout p2 of
                       Throws e p3 \<Rightarrow> Throws e p3
                     | Returns _ p3 \<Rightarrow>
                         scrollLoop w maxTimeout scrollStep stabilityTimeout startTime
                           (documentHeight metrics)
                           (if documentHeight metrics = lastDocumentHeight
                            then Suc stabilityCounter else 0)
                           (sleep w 100 p3))))
      else Returns ScrollTimedOut p)"
  by pat_completeness auto
termination
proof (relation
    "measure (\<lambda>(w, maxTimeout, step, st, startTime, l, c, p).
       nat (maxTimeout - (int (clock p) - int startTime)))",
    goal_cases)
  case 1
  then show ?case by simp
next
  case (2 w maxTimeout scrollStep stabilityTimeout startTime l c p metrics p1 u p2 x p3)
  then show ?case
    using clock_getScrollMetrics [of w p metrics p1] clock_scrollBy [of w scrollStep p1 u p2]
      clock_waitForLazyLoad [of w stabilityTimeout p2 x p3]
    by (simp add: clock_sleep)
qed

declare scrollLoop.simps [simp del]

record scrollOptions =
  maxTimeout :: "int option"
  scrollStep :: "nat option"
  stabilityTimeout :: "int option"

definition orDefault :: "'a option \<Rightarrow> 'a \<Rightarrow> 'a" where
  "orDefault v d = (case v of None \<Rightarrow> d | Some x \<Rightarrow> x)"

text \<open>
  \<^verbatim>\<open>intelligentScroll\<close>: the options with their defaults, the loop, then the scroll back to
  the top and the 500 ms wait. The exit the loop took is returned for reference (the
  source returns nothing).
\<close>

definition intelligentScroll :: "env \<Rightarrow> scrollOptions \<Rightarrow> page \<Rightarrow> (scrollExit, page) outcome" where
  "intelligentScroll w options p =
     andThen
       (scrollLoop w (orDefault (maxTimeout options) 30000) (orDefault (scrollStep options) 250)
          (orDefault (stabilityTimeout options) 5000) (clock p) 0 0 p)
       (\<lambda>ex p1.
          andThen (evaluate w scrollToTopScript p1)
            (\<lambda>_ p2. Returns ex (sleep w 500 p2)))"

section \<open>Capture orchestrator\<close>

datatype lifeCycleEvent = Load | DomContentLoaded | NetworkIdle0 | NetworkIdle2

text \<open>\<^verbatim>\<open>ScreenshotOptions\<close> of \<^verbatim>\<open>types.ts\<close>; an absent field is \<open>None\<close>.\<close>

record ScreenshotOptions =
  url :: string
  width :: "int option"
  height :: "int option"
  fullPage :: "bool option"
  quality :: "int option"
  format :: "imageFormat option"
  waitUntil :: "lifeCycleEvent option"
  timeout :: "int option"
  outputPath :: "string option"

text \<open>An awaited operation on the page handle that changes nothing the model tracks.\<close>

definition pageOp :: "env \<Rightarrow> page \<Rightarrow> (unit, page) outcome" where
  "pageOp w p = evaluate w (\<lambda>q. ((), q)) p"

text \<open>
  \<^verbatim>\<open>setupPage\<close> after \<^verbatim>\<open>browser.newPage()\<close> has returned the handle: \<^verbatim>\<open>setViewport\<close> is
  awaited, \<^verbatim>\<open>setDefaultTimeout\<close> is synchronous.
\<close>

definition setViewportScript :: "int \<times> int \<Rightarrow> page \<Rightarrow> unit \<times> page" where
  "setViewportScript v p = ((), p\<lparr>viewport := v\<rparr>)"

definition setupPage :: "env \<Rightarrow> ScreenshotOptions \<Rightarrow> page \<Rightarrow> (unit, page) outcome" where
  "setupPage w options p =
     andThen
       (evaluate w
          (setViewportScript (orDefault (width options) 1920, orDefault (height options) 1080)) p)
       (\<lambda>_ p1. Returns () (p1\<lparr>defaultTimeout := orDefault (timeout options) 30000\<rparr>))"

text \<open>
  \<^verbatim>\<open>blockChatWidgets\<close>: \<^verbatim>\<open>setRequestInterception(true)\<close> is awaited, the request handler
  (\<open>blockChatWidgets_onRequest\<close> above) is registered, and the DOM-blocking script is
  evaluated. That script runs before the navigation, in the document the tab shows
  then; the document the model tracks is the one the navigation loads.
\<close>

definition blockChatWidgets :: "env \<Rightarrow> page \<Rightarrow> (unit, page) outcome" where
  "blockChatWidgets w p = andThen (pageOp w p) (\<lambda>_ p1. pageOp w p1)"

text \<open>
  \<^verbatim>\<open>navigateAndPrepare\<close>. The consent hook registered with \<^verbatim>\<open>page.once("load", ...)\<close> is
  not awaited and catches its own errors; \<^verbatim>\<open>page.goto\<close> is an awaited operation that
  throws on a navigation error or timeout.
\<close>

definition navigateAndPrepare :: "env \<Rightarrow> page \<Rightarrow> (unit, page) outcome" where
  "navigateAndPrepare w p =
     andThen (blockChatWidgets w p)
       (\<lambda>_ p1. andThen (pageOp w p1)
          (\<lambda>_ p2. andThen (handleStickyElements w p2)
             (\<lambda>_ p3. Returns () (sleep w 500 p3))))"

text \<open>
  The arguments of \<^verbatim>\<open>page.screenshot\<close> in \<^verbatim>\<open>captureScreenshot\<close>:
  \<^verbatim>\<open>fullPage: options.fullPage ?? true\<close>, \<^verbatim>\<open>type: options.format ?? "jpeg"\<close>,
  \<^verbatim>\<open>quality: options.format === "jpeg" ? (options.quality ?? 80) : undefined\<close>.
\<close>

definition screenshotArgsOf :: "ScreenshotOptions \<Rightarrow> screenshotArgs" where
  "screenshotArgsOf options =
     \<lparr>argFullPage = orDefault (fullPage options) True,
      argType = orDefault (format options) Jpeg,
      argQuality = (if format options = Some Jpeg then Some (orDefault (quality options) 80)
                    else None)\<rparr>"

definition screenshotScript :: "env \<Rightarrow> screenshotArgs \<Rightarrow> page \<Rightarrow> nat list \<times> page" where
  "screenshotScript w args p = (rendered w args, p\<lparr>screenshotCalls := screenshotCalls p @ [args]\<rparr>)"

definition closeScript :: "page \<Rightarrow> unit \<times> page" where
  "closeScript p = ((), p\<lparr>closed := True\<rparr>)"

text \<open>
  The timeouts of the full-page branch.
  \<^verbatim>\<open>Math.min(baseTimeout * Math.ceil(documentHeight / viewportHeight), 120000)\<close>: with a
  viewport height of 0 the quotient is infinite or not a number, and the product is 120000
  after the minimum when the base is positive and the document height is not 0, and is
  not a number or minus infinity otherwise; a loop condition \<^verbatim>\<open>elapsed < t\<close> is false for
  both, as it is for \<open>t = 0\<close>, which stands for them here.
  \<^verbatim>\<open>Math.min(adjustedTimeout * 0.1, 5000)\<close> is compared with an integral number of ms, so
  it is rounded up.
\<close>

definition adjustedTimeout :: "int \<Rightarrow> ScrollMetrics \<Rightarrow> int" where
  "adjustedTimeout baseTimeout m =
     (if viewportHeight m = 0 then
        (if documentHeight m = 0 \<or> baseTimeout \<le> 0 then 0 else 120000)
      else min (baseTimeout *
                  int ((documentHeight m + viewportHeight m - 1) div viewportHeight m))
               120000)"

definition stabilityBudget :: "int \<Rightarrow> int" where
  "stabilityBudget adjusted = min (- ((- adjusted) div 10)) 5000"

definition prepareFullPage :: "env \<Rightarrow> ScreenshotOptions \<Rightarrow> page \<Rightarrow> (unit, page) outcome" where
  "prepareFullPage w options p =
     andThen (getScrollMetrics w p)
       (\<lambda>initialMetrics p1.
          andThen
            (intelligentScroll w
               \<lparr>maxTimeout =
                  Some (adjustedTimeout (orDefault (timeout options) 30000) initialMetrics),
                scrollStep = Some (viewportHeight initialMetrics * 4 div 5),
                stabilityTimeout =
                  Some (stabilityBudget
                          (adjustedTimeout (orDefault (timeout options) 30000) initialMetrics))\<rparr>
               p1)
            (\<lambda>_ p2. andThen (waitForLazyLoad w 2000 p2) (\<lambda>_ p3. Returns () p3)))"

text \<open>
  \<^verbatim>\<open>captureScreenshot\<close>: the full-page preparation when \<^verbatim>\<open>options.fullPage\<close> is true, the
  capture, the restoration of the sticky elements, and \<^verbatim>\<open>page.close()\<close>, one after the
  other with nothing that catches a throw.
\<close>

definition captureScreenshot ::
  "env \<Rightarrow> ScreenshotOptions \<Rightarrow> page \<Rightarrow> (nat list, page) outcome" where
  "captureScreenshot w options p =
     andThen (if fullPage options = Some True then prepareFullPage w options p else Returns () p)
       (\<lambda>_ p1. andThen (evaluate w (screenshotScript w (screenshotArgsOf options)) p1)
          (\<lambda>screenshot p2. andThen (restoreStickyElements w p2)
             (\<lambda>_ p3. andThen (evaluate w closeScript p3)
                (\<lambda>_ p4. Returns screenshot p4))))"

text \<open>What a request leaves of the handle: whether it is closed, and the captures made.\<close>

definition handleState :: "page \<Rightarrow> bool \<times> screenshotArgs list" where
  "handleState p = (closed p, screenshotCalls p)"

subsection \<open>ScreenshotService\<close>

text \<open>
  The host side of one request: the \<^verbatim>\<open>browser\<close> and \<^verbatim>\<open>blocker\<close> fields of the service
  (set or null), the page handle created for the request, in the state the request left
  it in, and the files written.
\<close>

record host =
  browser :: bool
  blocker :: bool
  pageHandle :: "page option"
  files :: "(string \<times> nat list) list"

definition initFailed :: error where
  "initFailed = Error ''Failed to initialize screenshot service''"

definition initialize :: "env \<Rightarrow> host \<Rightarrow> (unit, host) outcome" where
  "initialize w h =
     (case fromListsFault w of
        Some e \<Rightarrow> Throws initFailed h
      | None \<Rightarrow>
          (case launchFault w of
             Some e \<Rightarrow> Throws initFailed (h\<lparr>blocker := True\<rparr>)
           | None \<Rightarrow> Returns () (h\<lparr>blocker := True, browser := True\<rparr>)))"

text \<open>
  Steps 2 to 5 of \<^verbatim>\<open>takeScreenshot\<close>, on the handle \<^verbatim>\<open>browser.newPage()\<close> returned.
\<close>

definition pipeline ::
  "env \<Rightarrow> ScreenshotOptions \<Rightarrow> bool \<Rightarrow> page \<Rightarrow> (nat list, page) outcome" where
  "pipeline w options blockerSet p =
     andThen (setupPage w options p)
       (\<lambda>_ p1. andThen (if blockerSet then pageOp w p1 else Returns () p1)
          (\<lambda>_ p2. andThen (navigateAndPrepare w p2)
             (\<lambda>_ p3. captureScreenshot w options p3)))"

text \<open>
  \<^verbatim>\<open>writeFile\<close> runs when \<^verbatim>\<open>options.outputPath\<close> is truthy: present and not the empty string.
\<close>

definition saveOutput ::
  "env \<Rightarrow> ScreenshotOptions \<Rightarrow> nat list \<Rightarrow> host \<Rightarrow> (nat list, host) outcome" where
  "saveOutput w options screenshot h =
     (case outputPath options of
        None \<Rightarrow> Returns screenshot h
      | Some path \<Rightarrow>
          if path = [] then Returns screenshot h
          else (case writeFileFault w of
                  Some e \<Rightarrow> Throws e h
                | None \<Rightarrow> Returns screenshot (h\<lparr>files := files h @ [(path, screenshot)]\<rparr>)))"

text \<open>
  \<^verbatim>\<open>takeScreenshot\<close>. \<open>p0\<close> is the handle \<^verbatim>\<open>browser.newPage()\<close> returns when it does not
  throw. The \<^verbatim>\<open>catch\<close> block prints and throws the error again; there is no \<^verbatim>\<open>finally\<close>.
\<close>

definition takeScreenshot ::
  "env \<Rightarrow> ScreenshotOptions \<Rightarrow> page \<Rightarrow> host \<Rightarrow> (nat list, host) outcome" where
  "takeScreenshot w options p0 h =
     andThen (if \<not> browser h then initialize w h else Returns () h)
       (\<lambda>_ h1.
          if \<not> browser h1 then Throws (Error ''Browser initialization failed'') h1
          else
            (case newPageFault w of
               Some e \<Rightarrow> Throws e h1
             | None \<Rightarrow>
                 (case pipeline w options (blocker h1) p0 of
                    Throws e p \<Rightarrow> Throws e (h1\<lparr>pageHandle := Some p\<rparr>)
                  | Returns screenshot p \<Rightarrow>
                      saveOutput w options screenshot (h1\<lparr>pageHandle := Some p\<rparr>))))"

section \<open>HTTP surface\<close>

datatype 'a settled = Fulfilled 'a | Rejected error

fun settle :: "('a, 's) outcome \<Rightarrow> 'a settled" where
  "settle (Returns v _) = Fulfilled v"
| "settle (Throws e _) = Rejected e"

fun message :: "error \<Rightarrow> string" where
  "message (Error m) = m"

record batchEntry =
  entryUrl :: string
  success :: bool
  entryData :: "string option"
  entryError :: "string option"

datatype response =
  ImageResponse string nat "nat list"
| ErrorResponse nat string string
| BatchResponse "batchEntry list"

text \<open>
  The \<^verbatim>\<open>POST /screenshot\<close> handler: the validated body is passed on with \<^verbatim>\<open>outputPath\<close>
  set to undefined; the result is the image with its content type and length, or the
  500 response of the \<^verbatim>\<open>catch\<close> block.
\<close>

definition httpOptions :: "ScreenshotOptions \<Rightarrow> ScreenshotOptions" where
  "httpOptions body = body\<lparr>outputPath := None\<rparr>"

definition contentType :: "ScreenshotOptions \<Rightarrow> string" where
  "contentType body = (if format body = Some Png then ''image/png'' else ''image/jpeg'')"

definition screenshotHandler ::
  "env \<Rightarrow> ScreenshotOptions \<Rightarrow> page \<Rightarrow> host \<Rightarrow> response \<times> host" where
  "screenshotHandler w body p0 h =
     (case takeScreenshot w (httpOptions body) p0 h of
        Returns screenshot h' \<Rightarrow>
          (ImageResponse (contentType body) (length screenshot) screenshot, h')
      | Throws e h' \<Rightarrow>
          (ErrorResponse 500 ''Failed to capture screenshot'' (message e), h'))"

text \<open>
  The \<^verbatim>\<open>POST /screenshots/batch\<close> handler. Every item runs \<^verbatim>\<open>takeScreenshot\<close> on a page of
  its own, in an environment of its own (\<open>ws i\<close> and \<open>ps i\<close> for the item at index
  \<open>i\<close>), from the service state the handler found; \<^verbatim>\<open>Promise.allSettled\<close> keeps the
  outcomes in the order of the items. \<open>toBase64\<close> is \<^verbatim>\<open>Buffer.toString("base64")\<close>.
  A rejection is an \<^verbatim>\<open>Error\<close> object, whose message is read; nothing else in the handler's
  \<^verbatim>\<open>try\<close> block can throw, so the 500 response of its \<^verbatim>\<open>catch\<close> block does not arise.
\<close>

definition batchOutcomes ::
  "(nat \<Rightarrow> env) \<Rightarrow> ScreenshotOptions list \<Rightarrow> (nat \<Rightarrow> page) \<Rightarrow> host \<Rightarrow>
   (nat list, host) outcome list" where
  "batchOutcomes ws urls ps h =
     map (\<lambda>(i, options). takeScreenshot (ws i) (httpOptions options) (ps i) h)
       (zip [0 ..< length urls] urls)"

definition batchEntryOf ::
  "(nat list \<Rightarrow> string) \<Rightarrow> ScreenshotOptions \<Rightarrow> nat list settled \<Rightarrow> batchEntry" where
  "batchEntryOf toBase64 options result =
     (case result of
        Fulfilled v \<Rightarrow>
          \<lparr>entryUrl = url options, success = True, entryData = Some (toBase64 v),
           entryError = None\<rparr>
      | Rejected e \<Rightarrow>
          \<lparr>entryUrl = url options, success = False, entryData = None,
           entryError = Some (message e)\<rparr>)"

definition batchHandler ::
  "(nat list \<Rightarrow> string) \<Rightarrow> (nat \<Rightarrow> env) \<Rightarrow> ScreenshotOptions list \<Rightarrow> (nat \<Rightarrow> page) \<Rightarrow> host \<Rightarrow>
   response" where
  "batchHandler toBase64 ws urls ps h =
     BatchResponse
       (map (\<lambda>(options, out). batchEntryOf toBase64 options (settle out))
          (zip urls (batchOutcomes ws urls ps h)))"

section \<open>Example pages and environments\<close>

text \<open>
  A page that throws nowhere and answers at once: viewport 100, document height 250,
  three images and one frame, nothing in flight.
\<close>

definition calmEnv :: env where
  "calmEnv =
     \<lparr>innerHeight = (\<lambda>k. 100), docHeight = (\<lambda>k. 250),
      lazyLoad = (\<lambda>k. \<lparr>imageCount = 3, iframeCount = 1, pendingNetworkRequests = 0\<rparr>),
      pageFault = (\<lambda>k. None), latency = (\<lambda>k. 0), rendered = (\<lambda>a. [137, 80, 78, 71]),
      fromListsFault = None, launchFault = None, newPageFault = None, writeFileFault = None\<rparr>"

text \<open>
  A document of three elements: a header that a stylesheet makes fixed (element 0), a
  banner with an inline sticky position (element 1), and a plain block (element 2).
\<close>

definition headerStyle :: style where
  "headerStyle = [\<lparr>property = ''top'', cssValue = ''10px'', important = False\<rparr>]"

definition bannerStyle :: style where
  "bannerStyle =
     [\<lparr>property = ''position'', cssValue = ''sticky'', important = False\<rparr>,
      \<lparr>property = ''top'', cssValue = ''0px'', important = False\<rparr>]"

definition examplePage :: page where
  "examplePage =
     \<lparr>clock = 0, tick = 0, scrollY = 0, elements = [0, 1, 2],
      node = (\<lambda>e. if e = 0
                   then \<lparr>tagName = ''HEADER'', roleAttr = None,
                         sheetPosition = Some (''fixed'', False)\<rparr>
                   else \<lparr>tagName = ''DIV'', roleAttr = None, sheetPosition = None\<rparr>),
      styleAttr = (\<lambda>e. if e = 0 then serialize headerStyle
                        else if e = 1 then serialize bannerStyle else []),
      cssText = (\<lambda>e. if e = 0 then headerStyle else if e = 1 then bannerStyle else []),
      originalStickyStyles = None, screenshotCalls = [], viewport = (0, 0),
      defaultTimeout = 0, closed = False\<rparr>"

definition neutralizedPage :: page where
  "neutralizedPage = finalState (handleStickyElements calmEnv examplePage)"

definition restoredPage :: page where
  "restoredPage = finalState (restoreStickyElements calmEnv neutralizedPage)"

definition clearedStyle :: style where
  "clearedStyle = []"







text \<open>
  A service that is initialised, a request for a full-page PNG with a quality value, a
  page whose navigation times out (the fifth operation awaited on the handle, after
  \<^verbatim>\<open>setViewport\<close>, \<^verbatim>\<open>enableBlockingInPage\<close>, \<^verbatim>\<open>setRequestInterception\<close> and the DOM-blocking
  script), a batch of two requests the second of which meets that page, and a request
  with an output path.
\<close>

definition readyHost :: host where
  "readyHost = \<lparr>browser = True, blocker = True, pageHandle = None, files = []\<rparr>"

definition exampleOptions :: ScreenshotOptions where
  "exampleOptions =
     \<lparr>url = ''https://example.com'', width = None, height = None, fullPage = Some True,
      quality = Some 90, format = Some Png, waitUntil = None, timeout = None,
      outputPath = None\<rparr>"

definition navigationTimeout :: error where
  "navigationTimeout = Error ''Navigation timeout of 30000 ms exceeded''"

definition unreachableEnv :: env where
  "unreachableEnv = calmEnv\<lparr>pageFault := (\<lambda>k. if k = 4 then Some navigationTimeout else None)\<rparr>"

definition unreachableOptions :: ScreenshotOptions where
  "unreachableOptions = exampleOptions\<lparr>url := ''https://unreachable.invalid''\<rparr>"

definition batchEnvs :: "nat \<Rightarrow> env" where
  "batchEnvs i = (if i = 1 then unreachableEnv else calmEnv)"

definition batchPages :: "nat \<Rightarrow> page" where
  "batchPages i = examplePage"

definition fileOptions :: ScreenshotOptions where
  "fileOptions = exampleOptions\<lparr>outputPath := Some ''screenshots/shot.png''\<rparr>"

text \<open>The standard Base64 encoding of a list of bytes, for the examples.\<close>

definition base64Alphabet :: string where
  "base64Alphabet = ''ABCDEFGHIJKLMNOPQRSTUVWXYZabcdefghijklmnopqrstuvwxyz0123456789+/''"

fun base64 :: "nat list \<Rightarrow> string" where
  "base64 [] = []"
| "base64 [a] =
     [base64Alphabet ! (a div 4), base64Alphabet ! (a mod 4 * 16), CHR ''='', CHR ''='']"
| "base64 [a, b] =
     [base64Alphabet ! (a div 4), base64Alphabet ! (a mod 4 * 16 + b div 16),
      base64Alphabet ! (b mod 16 * 4), CHR ''='']"
| "base64 (a # b # c # rest) =
     [base64Alphabet ! (a div 4), base64Alphabet ! (a mod 4 * 16 + b div 16),
      base64Alphabet ! (b mod 16 * 4 + c div 64), base64Alphabet ! (c mod 64)] @ base64 rest"

section \<open>Properties of the request handler\<close>

text \<open>
  The matcher is the semantics of the regular expression: literals match themselves, the
  wildcard matches any run of characters without a line terminator, and the test succeeds
  when the expression matches somewhere in the input. A pattern without wildcard is a
  plain substring test.
\<close>

lemma regexPattern_Cons:
  "regexPattern (c # p) =
     (if c = CHR ''.'' then [CHR 0x5C, CHR ''.'']
      else if c = CHR ''*'' then ''.*'' else [c]) @ regexPattern p"
  by (simp add: regexPattern_def escapeDots_def expandStars_def)

lemma regexPattern_Nil [simp]: "regexPattern [] = []"
  by (simp add: regexPattern_def escapeDots_def expandStars_def)

lemma parseRegex_plain: "plainPattern p \<Longrightarrow> parseRegex (regexPattern p) = Some (map Lit p)"
  by (induction p) (auto simp: plainPattern_def regexPattern_Cons metachars_def)

lemma matchHere_lits: "matchHere (map Lit p) s = (\<exists>suf. s = p @ suf)"
proof (induction p arbitrary: s)
  case Nil
  then show ?case by simp
next
  case (Cons c p)
  then show ?case by (cases s) auto
qed

lemma matchHere_star:
  "matchHere (AnyStar # ts) s =
     (\<exists>mid rest. s = mid @ rest \<and> (\<forall>c \<in> set mid. \<not> lineTerminator c) \<and> matchHere ts rest)"
proof (induction s)
  case Nil
  then show ?case by simp
next
  case (Cons d s)
  show ?case
  proof
    assume "matchHere (AnyStar # ts) (d # s)"
    then consider "matchHere ts (d # s)" | "\<not> lineTerminator d" "matchHere (AnyStar # ts) s"
      by auto
    then show "\<exists>mid rest. d # s = mid @ rest \<and> (\<forall>c \<in> set mid. \<not> lineTerminator c) \<and>
        matchHere ts rest"
    proof cases
      case 1
      then show ?thesis by (intro exI [of _ "[]"] exI [of _ "d # s"]) simp
    next
      case 2
      then obtain mid rest where "s = mid @ rest" "\<forall>c \<in> set mid. \<not> lineTerminator c"
        "matchHere ts rest"
        using Cons by blast
      then show ?thesis using 2(1) by (intro exI [of _ "d # mid"] exI [of _ rest]) simp
    qed
  next
    assume "\<exists>mid rest. d # s = mid @ rest \<and> (\<forall>c \<in> set mid. \<not> lineTerminator c) \<and>
        matchHere ts rest"
    then obtain mid rest where m: "d # s = mid @ rest" "\<forall>c \<in> set mid. \<not> lineTerminator c"
      "matchHere ts rest"
      by blast
    show "matchHere (AnyStar # ts) (d # s)"
    proof (cases mid)
      case Nil
      then have "matchHere ts (d # s)" using m by simp
      then show ?thesis by simp
    next
      case c: (Cons a mid')
      then have "s = mid' @ rest" "a = d" "\<forall>c \<in> set mid'. \<not> lineTerminator c"
        using m by auto
      then have "matchHere (AnyStar # ts) s" "\<not> lineTerminator d"
        using m(2,3) Cons.IH c by auto
      then show ?thesis by simp
    qed
  qed
qed

lemma matchAnywhere_iff:
  "matchAnywhere ts s = (\<exists>pre rest. s = pre @ rest \<and> matchHere ts rest)"
proof (induction s)
  case Nil
  then show ?case by simp
next
  case (Cons d s)
  show ?case
  proof
    assume "matchAnywhere ts (d # s)"
    then consider "matchHere ts (d # s)" | "matchAnywhere ts s" by auto
    then show "\<exists>pre rest. d # s = pre @ rest \<and> matchHere ts rest"
    proof cases
      case 1
      then show ?thesis by (intro exI [of _ "[]"] exI [of _ "d # s"]) simp
    next
      case 2
      then obtain pre rest where "s = pre @ rest" "matchHere ts rest" using Cons by blast
      then show ?thesis by (intro exI [of _ "d # pre"] exI [of _ rest]) simp
    qed
  next
    assume "\<exists>pre rest. d # s = pre @ rest \<and> matchHere ts rest"
    then obtain pre rest where m: "d # s = pre @ rest" "matchHere ts rest" by blast
    show "matchAnywhere ts (d # s)"
    proof (cases pre)
      case Nil
      then have "matchHere ts (d # s)" using m by simp
      then show ?thesis by simp
    next
      case c: (Cons a pre')
      then have "s = pre' @ rest" using m by simp
      then have "matchAnywhere ts s" using m(2) Cons.IH by auto
      then show ?thesis by simp
    qed
  qed
qed

lemma regexTest_plain:
  "plainPattern p \<Longrightarrow> regexTest p u = Inr (\<exists>pre suf. u = pre @ p @ suf)"
  by (auto simp: regexTest_def parseRegex_plain matchAnywhere_iff matchHere_lits)

lemma blockPatterns_parse:
  "list_all (\<lambda>p. parseRegex (regexPattern p) \<noteq> None) blockPatterns"
  by code_simp

lemma somePattern_total:
  "list_all (\<lambda>p. parseRegex (regexPattern p) \<noteq> None) ps \<Longrightarrow> \<exists>b. somePattern ps u = Inr b"
  by (induction ps) (auto simp: regexTest_def split: option.splits bool.splits sum.splits)

lemma intercomRequest_matches: "matchesBlockPattern (reqUrl intercomRequest)"
  by code_simp

lemma exampleRequest_no_match: "\<not> matchesBlockPattern (reqUrl exampleRequest)"
  by code_simp

text \<open>
  C2 (as amended). The handler never throws, and what it does to an intercepted request
  is decided by the first \<^verbatim>\<open>abort()\<close>/\<^verbatim>\<open>continue()\<close> call and the fallback \<^verbatim>\<open>continue()\<close>:
  a request that another handler has resolved is left as it is; a pending request gets at
  most one resolution, never an abort and a continue; when the first call does not fail
  the request is aborted if its lower-cased URL matches a configured pattern and continued
  otherwise; when the first call fails and the fallback does not, the request is
  continued (whether or not its URL matches); when both fail the request stays pending.
\<close>

theorem onRequest_decision:
  "(resolutions r \<noteq> [] \<longrightarrow> resolutions (blockChatWidgets_onRequest fl r) = resolutions r) \<and>
   (resolutions r = [] \<longrightarrow>
      length (resolutions (blockChatWidgets_onRequest fl r)) \<le> 1 \<and>
      (fl (attempts r) = None \<longrightarrow>
         resolutions (blockChatWidgets_onRequest fl r) =
           [if matchesBlockPattern (reqUrl r) then Aborted else Continued]) \<and>
      (fl (attempts r) \<noteq> None \<and> fl (Suc (attempts r)) = None \<longrightarrow>
         resolutions (blockChatWidgets_onRequest fl r) = [Continued]) \<and>
      (fl (attempts r) \<noteq> None \<and> fl (Suc (attempts r)) \<noteq> None \<longrightarrow>
         resolutions (blockChatWidgets_onRequest fl r) = []))"
proof -
  obtain b where b: "somePattern blockPatterns (toLowerCase (reqUrl r)) = Inr b"
    using somePattern_total [OF blockPatterns_parse] by blast
  show ?thesis
    using b
    by (cases b)
       (auto simp: blockChatWidgets_onRequest_def onRequest_def request_abort_def
          request_continue_def resolve_def matchesBlockPattern_def Let_def
          split: option.splits)
qed

text \<open>
  A matching request is aborted and another one continued when no call fails; the other
  one is continued by the fallback when its first call fails; it gets at most one
  resolution when every call fails; and a request that is already aborted stays so.
\<close>

theorem onRequest_decision_witness:
  "resolutions (blockChatWidgets_onRequest noFaults intercomRequest) = [Aborted] \<and>
   resolutions (blockChatWidgets_onRequest noFaults exampleRequest) = [Continued] \<and>
   resolutions (blockChatWidgets_onRequest firstCallFails exampleRequest) = [Continued] \<and>
   length (resolutions (blockChatWidgets_onRequest everyCallFails exampleRequest)) \<le> 1 \<and>
   resolutions
     (blockChatWidgets_onRequest noFaults (exampleRequest\<lparr>resolutions := [Aborted]\<rparr>)) =
     [Aborted]"
  using onRequest_decision [of intercomRequest noFaults]
    onRequest_decision [of exampleRequest noFaults]
    onRequest_decision [of exampleRequest firstCallFails]
    onRequest_decision [of exampleRequest everyCallFails]
    onRequest_decision [of "exampleRequest\<lparr>resolutions := [Aborted]\<rparr>" noFaults]
    intercomRequest_matches exampleRequest_no_match
  by (simp add: intercomRequest_def exampleRequest_def noFaults_def firstCallFails_def
      everyCallFails_def)

text \<open>
  C2 as stated fails. A request whose URL matches \<^verbatim>\<open>intercom.io\<close> reaches no decision when
  its \<^verbatim>\<open>abort()\<close> call and the fallback \<^verbatim>\<open>continue()\<close> both fail, and it is continued, not
  aborted, when only the \<^verbatim>\<open>abort()\<close> call fails.
\<close>

theorem onRequest_counterexample:
  "matchesBlockPattern (reqUrl intercomRequest) \<and>
   resolutions intercomRequest = [] \<and>
   resolutions (blockChatWidgets_onRequest everyCallFails intercomRequest) = [] \<and>
   resolutions (blockChatWidgets_onRequest firstCallFails intercomRequest) = [Continued]"
  by code_simp

section \<open>Properties of the overlay neutralizer\<close>

lemma writeStyle_fields [simp]:
  "cssText (writeStyle e s p) = (cssText p)(e := s)"
  "originalStickyStyles (writeStyle e s p) = originalStickyStyles p"
  "node (writeStyle e s p) = node p"
  "elements (writeStyle e s p) = elements p"
  "closed (writeStyle e s p) = closed p"
  "scrollY (writeStyle e s p) = scrollY p"
  "clock (writeStyle e s p) = clock p"
  "tick (writeStyle e s p) = tick p"
  "screenshotCalls (writeStyle e s p) = screenshotCalls p"
  by (simp_all add: writeStyle_def)

lemma elapse_fields [simp]:
  "cssText (elapse w d p) = cssText p"
  "styleAttr (elapse w d p) = styleAttr p"
  "originalStickyStyles (elapse w d p) = originalStickyStyles p"
  "scrollY (elapse w d p) = scrollY p"
  "closed (elapse w d p) = closed p"
  "screenshotCalls (elapse w d p) = screenshotCalls p"
  "clock (elapse w d p) = clock p + d + latency w (tick p)"
  "tick (elapse w d p) = Suc (tick p)"
  by (simp_all add: elapse_def)

lemma flattenElement_other:
  "e' \<noteq> e \<Longrightarrow> cssText (flattenElement e p) e' = cssText p e'"
  by (simp add: flattenElement_def setProperty_def Let_def)

text \<open>
  The loop of \<^verbatim>\<open>modifyStickyElements\<close> over distinct elements: every record it adds holds
  the style its element had before the loop, no element is recorded twice, and an element
  without a record keeps its style.
\<close>

lemma neutralizeAll_acc:
  "\<exists>new. fst (neutralizeAll es acc p) = acc @ new \<and> set (map fst new) \<subseteq> set es \<and>
     (distinct es \<longrightarrow> distinct (map fst new) \<and>
        (\<forall>(e, S) \<in> set new. S = cssText p e) \<and>
        (\<forall>e. e \<notin> fst ` set new \<longrightarrow> cssText (snd (neutralizeAll es acc p)) e = cssText p e))"
proof (induction es arbitrary: acc p)
  case Nil
  then show ?case by simp
next
  case (Cons a es)
  show ?case
  proof (cases "isStickyPosition (computedPosition p a)")
    case False
    then show ?thesis using Cons [of acc p] by auto
  next
    case True
    obtain new where new:
      "fst (neutralizeAll es (acc @ [(a, cssText p a)]) (flattenElement a p)) =
        (acc @ [(a, cssText p a)]) @ new"
      "set (map fst new) \<subseteq> set es"
      "distinct es \<longrightarrow> distinct (map fst new) \<and>
        (\<forall>(e, S) \<in> set new. S = cssText (flattenElement a p) e) \<and>
        (\<forall>e. e \<notin> fst ` set new \<longrightarrow>
           cssText (snd (neutralizeAll es (acc @ [(a, cssText p a)]) (flattenElement a p))) e =
           cssText (flattenElement a p) e)"
      using Cons [of "acc @ [(a, cssText p a)]" "flattenElement a p"] by blast
    have "fst (neutralizeAll (a # es) acc p) = acc @ ((a, cssText p a) # new)"
      using True new(1) by simp
    moreover have "set (map fst ((a, cssText p a) # new)) \<subseteq> set (a # es)"
      using new(2) by auto
    moreover have "distinct (a # es) \<longrightarrow> distinct (map fst ((a, cssText p a) # new)) \<and>
        (\<forall>(e, S) \<in> set ((a, cssText p a) # new). S = cssText p e) \<and>
        (\<forall>e. e \<notin> fst ` set ((a, cssText p a) # new) \<longrightarrow>
           cssText (snd (neutralizeAll (a # es) acc p)) e = cssText p e)"
    proof
      assume d: "distinct (a # es)"
      then have an: "a \<notin> fst ` set new" using new(2) by auto
      have 1: "distinct (map fst ((a, cssText p a) # new))" using d new(2,3) by auto
      have 2: "\<forall>(e, S) \<in> set ((a, cssText p a) # new). S = cssText p e"
      proof -
        have "\<forall>(e, S) \<in> set new. S = cssText p e"
        proof (clarify)
          fix e S assume m: "(e, S) \<in> set new"
          then have "e \<noteq> a" using an by force
          moreover have "S = cssText (flattenElement a p) e" using m d new(3) by auto
          ultimately show "S = cssText p e" by (simp add: flattenElement_other)
        qed
        then show ?thesis by simp
      qed
      have 3: "\<forall>e. e \<notin> fst ` set ((a, cssText p a) # new) \<longrightarrow>
           cssText (snd (neutralizeAll (a # es) acc p)) e = cssText p e"
        using True d new(3) by (auto simp: flattenElement_other)
      show "distinct (map fst ((a, cssText p a) # new)) \<and>
        (\<forall>(e, S) \<in> set ((a, cssText p a) # new). S = cssText p e) \<and>
        (\<forall>e. e \<notin> fst ` set ((a, cssText p a) # new) \<longrightarrow>
           cssText (snd (neutralizeAll (a # es) acc p)) e = cssText p e)"
        using 1 2 3 by blast
    qed
    ultimately show ?thesis by blast
  qed
qed

lemma distinct_insertionOrder [simp]: "distinct (insertionOrder xs)"
  by (simp add: insertionOrder_def)

lemma modifyStickyElements_facts:
  "distinct (map fst (fst (modifyStickyElements p))) \<and>
   (\<forall>(e, S) \<in> set (fst (modifyStickyElements p)). S = cssText p e) \<and>
   (\<forall>e. e \<notin> fst ` set (fst (modifyStickyElements p)) \<longrightarrow>
      cssText (snd (modifyStickyElements p)) e = cssText p e)"
  using neutralizeAll_acc [of "stickyElements p" "[]" p]
  by (auto simp: modifyStickyElements_def stickyElements_def)

lemma restoreAll_slot [simp]:
  "originalStickyStyles (restoreAll recs q) = originalStickyStyles q"
  by (induction recs q rule: restoreAll.induct) (auto simp: setCssText_def)

lemma restoreAll_other:
  "e \<notin> fst ` set recs \<Longrightarrow> cssText (restoreAll recs q) e = cssText q e"
  by (induction recs q rule: restoreAll.induct) (auto simp: setCssText_def)

lemma restoreAll_recorded:
  "distinct (map fst recs) \<Longrightarrow> (e, S) \<in> set recs \<Longrightarrow> cssText (restoreAll recs q) e = S"
proof (induction recs q rule: restoreAll.induct)
  case (1 p)
  then show ?case by simp
next
  case (2 a s rest p)
  show ?case
  proof (cases "(e, S) = (a, s)")
    case True
    then have "e \<notin> fst ` set rest" using 2(2) by auto
    then show ?thesis using True by (simp add: restoreAll_other setCssText_def)
  next
    case False
    then show ?thesis using 2 by auto
  qed
qed

text \<open>What a run of the restore loop leaves: for each element the style of its last record.\<close>

lemma restoreAll_cssText:
  "cssText (restoreAll recs q) =
     (\<lambda>e. case map_of (rev recs) e of Some s \<Rightarrow> s | None \<Rightarrow> cssText q e)"
  by (induction recs q rule: restoreAll.induct)
     (auto simp: setCssText_def fun_eq_iff map_add_def split: option.splits)

lemma restoreAll_styleAttr:
  "styleAttr (restoreAll recs q) =
     (\<lambda>e. case map_of (rev recs) e of Some s \<Rightarrow> serialize s | None \<Rightarrow> styleAttr q e)"
  by (induction recs q rule: restoreAll.induct)
     (auto simp: setCssText_def writeStyle_def fun_eq_iff map_add_def split: option.splits)

lemma handleStickyElements_Returns:
  assumes "handleStickyElements w p = Returns u p1"
  shows "p1 = elapse w 0 (snd (modifyStickyElements p)
                \<lparr>originalStickyStyles := Some (fst (modifyStickyElements p))\<rparr>)"
  using assms
  by (auto simp: handleStickyElements_def evaluate_def handleStickyScript_def
      split: option.splits prod.splits)

lemma restoreStickyElements_Returns:
  assumes "restoreStickyElements w q = Returns u q'"
  shows "q' = elapse w 0 (case originalStickyStyles q of
                            None \<Rightarrow> q | Some recs \<Rightarrow> restoreAll recs q)"
  using assms
  by (auto simp: restoreStickyElements_def evaluate_def restoreStickyScript_def
      split: option.splits prod.splits)

lemma outcome_unit_Returns: "isReturn m \<Longrightarrow> m = Returns () (finalState m)"
  by (cases m) auto

lemma calm_handle_returns: "isReturn (handleStickyElements calmEnv p)"
  by (simp add: handleStickyElements_def evaluate_def calmEnv_def split: prod.splits)

lemma calm_restore_returns: "isReturn (restoreStickyElements calmEnv p)"
  by (simp add: restoreStickyElements_def evaluate_def calmEnv_def split: prod.splits)

lemma examplePage_slot:
  "originalStickyStyles (finalState (handleStickyElements calmEnv examplePage)) =
     Some [(1, bannerStyle), (0, headerStyle)]"
  by code_simp

text \<open>
  C4. When \<^verbatim>\<open>handleStickyElements\<close> returns, the slot holds its records; an element without
  a record has the style it had; and for every record \<open>(e, S)\<close>, \<open>S\<close> is the inline style
  \<open>e\<close> had before, and a later \<^verbatim>\<open>restoreStickyElements\<close> on any state of the page that still
  holds these records leaves \<open>e\<close> with exactly the style \<open>S\<close>. When the slot is undefined
  (neutralize never ran) or holds no record, \<^verbatim>\<open>restoreStickyElements\<close> changes no element's
  style.
\<close>

theorem sticky_round_trip:
  "(handleStickyElements w p = Returns u p1 \<longrightarrow>
      (\<exists>recs. originalStickyStyles p1 = Some recs \<and>
         (\<forall>e. e \<notin> fst ` set recs \<longrightarrow> cssText p1 e = cssText p e) \<and>
         (\<forall>(e, S) \<in> set recs. S = cssText p e \<and>
            (\<forall>w' q u' q'. originalStickyStyles q = Some recs \<and>
                 restoreStickyElements w' q = Returns u' q' \<longrightarrow> cssText q' e = S)))) \<and>
   ((originalStickyStyles q0 = None \<or> originalStickyStyles q0 = Some []) \<and>
      restoreStickyElements w q0 = Returns u0 q1 \<longrightarrow>
      cssText q1 = cssText q0 \<and> styleAttr q1 = styleAttr q0)"
proof (intro conjI impI)
  assume h: "handleStickyElements w p = Returns u p1"
  let ?recs = "fst (modifyStickyElements p)"
  note p1 = handleStickyElements_Returns [OF h]
  note facts = modifyStickyElements_facts [of p]
  have slot: "originalStickyStyles p1 = Some ?recs" by (simp add: p1)
  have other: "\<forall>e. e \<notin> fst ` set ?recs \<longrightarrow> cssText p1 e = cssText p e"
    using facts by (simp add: p1)
  have restored: "\<forall>(e, S) \<in> set ?recs. S = cssText p e \<and>
      (\<forall>w' q u' q'. originalStickyStyles q = Some ?recs \<and>
         restoreStickyElements w' q = Returns u' q' \<longrightarrow> cssText q' e = S)"
  proof (clarify, intro conjI allI impI)
    fix e S assume m: "(e, S) \<in> set ?recs"
    show "S = cssText p e" using facts m by auto
    fix w' q u' q'
    assume r: "originalStickyStyles q = Some ?recs \<and> restoreStickyElements w' q = Returns u' q'"
    then have "q' = elapse w' 0 (restoreAll ?recs q)"
      using restoreStickyElements_Returns [of w' q u' q'] by simp
    then show "cssText q' e = S"
      using restoreAll_recorded [of ?recs e S q] facts m by simp
  qed
  show "\<exists>recs. originalStickyStyles p1 = Some recs \<and>
         (\<forall>e. e \<notin> fst ` set recs \<longrightarrow> cssText p1 e = cssText p e) \<and>
         (\<forall>(e, S) \<in> set recs. S = cssText p e \<and>
            (\<forall>w' q u' q'. originalStickyStyles q = Some recs \<and>
                 restoreStickyElements w' q = Returns u' q' \<longrightarrow> cssText q' e = S))"
    using slot other restored by blast
next
  assume a: "(originalStickyStyles q0 = None \<or> originalStickyStyles q0 = Some []) \<and>
      restoreStickyElements w q0 = Returns u0 q1"
  then show "cssText q1 = cssText q0" "styleAttr q1 = styleAttr q0"
    using restoreStickyElements_Returns [of w q0 u0 q1] by auto
qed

text \<open>
  On the example page both sticky elements are recorded and get their styles back, the
  plain block is untouched, and a restore without a neutralize changes no style.
\<close>

theorem sticky_round_trip_witness:
  "cssText (finalState (restoreStickyElements calmEnv
      (finalState (handleStickyElements calmEnv examplePage)))) 0 = headerStyle \<and>
   cssText (finalState (restoreStickyElements calmEnv
      (finalState (handleStickyElements calmEnv examplePage)))) 1 = bannerStyle \<and>
   cssText (finalState (handleStickyElements calmEnv examplePage)) 2 = [] \<and>
   cssText (finalState (restoreStickyElements calmEnv examplePage)) = cssText examplePage"
proof -
  let ?p1 = "finalState (handleStickyElements calmEnv examplePage)"
  let ?q1 = "finalState (restoreStickyElements calmEnv ?p1)"
  let ?q0 = "finalState (restoreStickyElements calmEnv examplePage)"
  have h: "handleStickyElements calmEnv examplePage = Returns () ?p1"
    by (rule outcome_unit_Returns [OF calm_handle_returns])
  have r1: "restoreStickyElements calmEnv ?p1 = Returns () ?q1"
    by (rule outcome_unit_Returns [OF calm_restore_returns])
  have r0: "restoreStickyElements calmEnv examplePage = Returns () ?q0"
    by (rule outcome_unit_Returns [OF calm_restore_returns])
  have none: "originalStickyStyles examplePage = None"
    by (simp add: examplePage_def)
  note inst = sticky_round_trip [where w = calmEnv and p = examplePage and u = "()"
      and ?p1.0 = ?p1 and ?q0.0 = examplePage and ?u0.0 = "()" and ?q1.0 = ?q0]
  from inst h obtain recs where recs: "originalStickyStyles ?p1 = Some recs"
    "\<forall>e. e \<notin> fst ` set recs \<longrightarrow> cssText ?p1 e = cssText examplePage e"
    "\<forall>(e, S) \<in> set recs. S = cssText examplePage e \<and>
       (\<forall>w' q u' q'. originalStickyStyles q = Some recs \<and>
          restoreStickyElements w' q = Returns u' q' \<longrightarrow> cssText q' e = S)"
    by blast
  have eq: "recs = [(1, bannerStyle), (0, headerStyle)]"
    using recs(1) examplePage_slot by simp
  have a: "cssText ?q1 0 = headerStyle"
    using recs(3) recs(1) r1 unfolding eq by fastforce
  have b: "cssText ?q1 1 = bannerStyle"
    using recs(3) recs(1) r1 unfolding eq by fastforce
  have c: "cssText ?p1 2 = []"
    using recs(2) unfolding eq by (simp add: examplePage_def)
  have d: "cssText ?q0 = cssText examplePage"
    using inst none r0 by blast
  show ?thesis using a b c d by blast
qed

text \<open>
  C8 (as amended). \<^verbatim>\<open>restoreStickyElements\<close> writes back the recorded style of every
  element \<^verbatim>\<open>handleStickyElements\<close> recorded, and leaves the slot as it found it: the records
  are still there afterwards. A further restore writes the same styles again, so it
  changes no style of the page the first restore left.
\<close>

theorem restore_keeps_slot:
  "handleStickyElements w0 p = Returns u0 p1 \<and> originalStickyStyles q = originalStickyStyles p1 \<and>
   restoreStickyElements w q = Returns u q' \<longrightarrow>
     (\<exists>recs. originalStickyStyles q' = Some recs \<and> originalStickyStyles q = Some recs \<and>
        (\<forall>(e, S) \<in> set recs. S = cssText p e \<and> cssText q' e = S)) \<and>
     (\<forall>w2 u2 q2. restoreStickyElements w2 q' = Returns u2 q2 \<longrightarrow>
        cssText q2 = cssText q' \<and> styleAttr q2 = styleAttr q' \<and>
        originalStickyStyles q2 = originalStickyStyles q')"
proof (intro impI, elim conjE)
  assume h: "handleStickyElements w0 p = Returns u0 p1"
    and s: "originalStickyStyles q = originalStickyStyles p1"
    and r: "restoreStickyElements w q = Returns u q'"
  let ?recs = "fst (modifyStickyElements p)"
  note facts = modifyStickyElements_facts [of p]
  have slot: "originalStickyStyles q = Some ?recs"
    using s handleStickyElements_Returns [OF h] by simp
  have q': "q' = elapse w 0 (restoreAll ?recs q)"
    using restoreStickyElements_Returns [OF r] slot by simp
  have slot': "originalStickyStyles q' = Some ?recs"
    using q' slot by simp
  have written: "\<forall>(e, S) \<in> set ?recs. S = cssText p e \<and> cssText q' e = S"
    using facts restoreAll_recorded [of ?recs _ _ q] by (auto simp: q')
  have again: "\<forall>w2 u2 q2. restoreStickyElements w2 q' = Returns u2 q2 \<longrightarrow>
        cssText q2 = cssText q' \<and> styleAttr q2 = styleAttr q' \<and>
        originalStickyStyles q2 = originalStickyStyles q'"
  proof (intro allI impI)
    fix w2 u2 q2 assume r2: "restoreStickyElements w2 q' = Returns u2 q2"
    have "q2 = elapse w2 0 (restoreAll ?recs q')"
      using restoreStickyElements_Returns [OF r2] slot' by simp
    moreover have "cssText (restoreAll ?recs q') = cssText q'"
      "styleAttr (restoreAll ?recs q') = styleAttr q'"
      by (auto simp: q' restoreAll_cssText restoreAll_styleAttr fun_eq_iff split: option.splits)
    ultimately show "cssText q2 = cssText q' \<and> styleAttr q2 = styleAttr q' \<and>
        originalStickyStyles q2 = originalStickyStyles q'"
      by simp
  qed
  show "(\<exists>recs. originalStickyStyles q' = Some recs \<and> originalStickyStyles q = Some recs \<and>
        (\<forall>(e, S) \<in> set recs. S = cssText p e \<and> cssText q' e = S)) \<and>
     (\<forall>w2 u2 q2. restoreStickyElements w2 q' = Returns u2 q2 \<longrightarrow>
        cssText q2 = cssText q' \<and> styleAttr q2 = styleAttr q' \<and>
        originalStickyStyles q2 = originalStickyStyles q')"
    using slot slot' written again by blast
qed

text \<open>
  On the example page: after neutralize and restore the slot still holds both records,
  both elements have their styles back, and a second restore changes no style.
\<close>

theorem restore_keeps_slot_witness:
  "originalStickyStyles restoredPage = Some [(1, bannerStyle), (0, headerStyle)] \<and>
   cssText restoredPage 0 = headerStyle \<and> cssText restoredPage 1 = bannerStyle \<and>
   cssText (finalState (restoreStickyElements calmEnv restoredPage)) = cssText restoredPage"
proof -
  have h: "handleStickyElements calmEnv examplePage = Returns () neutralizedPage"
    unfolding neutralizedPage_def by (rule outcome_unit_Returns [OF calm_handle_returns])
  have r: "restoreStickyElements calmEnv neutralizedPage = Returns () restoredPage"
    unfolding restoredPage_def by (rule outcome_unit_Returns [OF calm_restore_returns])
  have r2: "restoreStickyElements calmEnv restoredPage =
      Returns () (finalState (restoreStickyElements calmEnv restoredPage))"
    by (rule outcome_unit_Returns [OF calm_restore_returns])
  note inst = restore_keeps_slot [where ?w0.0 = calmEnv and p = examplePage and ?u0.0 = "()"
      and ?p1.0 = neutralizedPage and q = neutralizedPage and w = calmEnv and u = "()"
      and q' = restoredPage]
  from inst h r obtain recs where recs: "originalStickyStyles restoredPage = Some recs"
    "originalStickyStyles neutralizedPage = Some recs"
    "\<forall>(e, S) \<in> set recs. S = cssText examplePage e \<and> cssText restoredPage e = S"
    and again: "\<forall>w2 u2 q2. restoreStickyElements w2 restoredPage = Returns u2 q2 \<longrightarrow>
        cssText q2 = cssText restoredPage \<and> styleAttr q2 = styleAttr restoredPage \<and>
        originalStickyStyles q2 = originalStickyStyles restoredPage"
    by blast
  have eq: "recs = [(1, bannerStyle), (0, headerStyle)]"
    using recs(2) examplePage_slot by (simp add: neutralizedPage_def)
  show ?thesis
    using recs(1,3) again r2 unfolding eq by fastforce
qed

text \<open>
  C8 as stated fails: after the restore the slot is neither undefined nor empty, and a
  later restore is not a no-op in general. On the example page the slot still holds both
  records after the restore; when the header's inline style is then cleared, a second
  restore writes the recorded style into it again.
\<close>

theorem restore_clears_slot_counterexample:
  "originalStickyStyles restoredPage = Some [(1, bannerStyle), (0, headerStyle)] \<and>
   cssText (setCssText 0 clearedStyle restoredPage) 0 = [] \<and>
   cssText (finalState (restoreStickyElements calmEnv (setCssText 0 clearedStyle restoredPage))) 0 =
     headerStyle \<and>
   headerStyle \<noteq> []"
  by code_simp

section \<open>Properties of the stability monitor\<close>


lemma sleep_fields [simp]:
  "tick (sleep w d p) = Suc (tick p)"
  "clock (sleep w d p) = clock p + d + latency w (tick p)"
  "scrollY (sleep w d p) = scrollY p"
  by (simp_all add: sleep_def)



text \<open>There is no \<^verbatim>\<open>catch\<close> in the loop: a sampling call that throws ends it with that error.\<close>

lemma waitForLazyLoad_sampling_error:
  "pageFault w (tick p) = Some e \<Longrightarrow> 0 < T \<Longrightarrow>
   waitForLazyLoad w T p = Throws e (elapse w 0 p)"
  by (subst waitForLazyLoad_def, subst waitLoop.simps)
     (simp add: getLazyLoadMetrics_def evaluate_def)




section \<open>Properties of the intelligent scroller\<close>





lemma returned_Some: "returned m = Some v \<Longrightarrow> m = Returns v (finalState m)"
  by (cases m) auto








section \<open>Properties of the capture orchestrator\<close>

text \<open>
  The loops change nothing of the page but the clock, the tick and the scroll offset:
  whatever is read from the page and does not depend on these is the same after them,
  whether they return or throw.
\<close>

lemma getLazyLoadMetrics_cases:
  "(\<exists>e. getLazyLoadMetrics w p = Throws e (elapse w 0 p)) \<or>
   (\<exists>m. getLazyLoadMetrics w p = Returns m (elapse w 0 p))"
  by (simp add: getLazyLoadMetrics_def evaluate_def lazyLoadScript_def split: option.splits)

lemma waitLoop_frame:
  assumes f: "\<And>w d q. f (elapse w d q) = f q"
  shows "f (finalState (waitLoop w T s prev p)) = f p"
proof (induction w T s prev p rule: waitLoop.induct)
  case (1 w T s prev p)
  show ?case
  proof (cases "int (clock p) - int s < T")
    case False
    then show ?thesis by (subst waitLoop.simps) simp
  next
    case guard: True
    from getLazyLoadMetrics_cases [of w p] show ?thesis
    proof (elim disjE exE)
      fix e assume "getLazyLoadMetrics w p = Throws e (elapse w 0 p)"
      then show ?thesis using guard by (subst waitLoop.simps) (simp add: f)
    next
      fix m assume g1: "getLazyLoadMetrics w p = Returns m (elapse w 0 p)"
      show ?thesis
      proof (cases prev)
        case None
        then show ?thesis
          using guard g1 "1.IH"(1) [OF guard g1 None]
          by (subst waitLoop.simps) (simp add: f sleep_def)
      next
        case (Some pr)
        show ?thesis
        proof (cases "isStable m pr")
          case False
          then show ?thesis
            using guard g1 Some "1.IH"(3) [OF guard g1 Some False]
            by (subst waitLoop.simps) (simp add: f sleep_def)
        next
          case stable: True
          let ?p2 = "sleep w 200 (elapse w 0 p)"
          from getLazyLoadMetrics_cases [of w ?p2] show ?thesis
          proof (elim disjE exE)
            fix e assume "getLazyLoadMetrics w ?p2 = Throws e (elapse w 0 ?p2)"
            then show ?thesis
              using guard g1 Some stable by (subst waitLoop.simps) (simp add: f sleep_def)
          next
            fix m3 assume g2: "getLazyLoadMetrics w ?p2 = Returns m3 (elapse w 0 ?p2)"
            show ?thesis
            proof (cases "isStable m3 m")
              case True
              then show ?thesis
                using guard g1 Some stable g2 by (subst waitLoop.simps) (simp add: f sleep_def)
            next
              case False
              then show ?thesis
                using guard g1 Some stable g2 "1.IH"(2) [OF guard g1 Some stable g2 False]
                by (subst waitLoop.simps) (simp add: f sleep_def)
            qed
          qed
        qed
      qed
    qed
  qed
qed

lemma waitForLazyLoad_frame:
  assumes "\<And>w d q. f (elapse w d q) = f q"
  shows "f (finalState (waitForLazyLoad w T p)) = f p"
  using waitLoop_frame [of f, OF assms] by (simp add: waitForLazyLoad_def)

lemma getScrollMetrics_cases:
  "(\<exists>e. getScrollMetrics w p = Throws e (elapse w 0 p)) \<or>
   (\<exists>m. getScrollMetrics w p = Returns m (elapse w 0 p))"
  by (simp add: getScrollMetrics_def evaluate_def scrollMetricsScript_def split: option.splits)

lemma scrollBy_cases:
  "(\<exists>e. evaluate w (scrollByScript w step) p = Throws e (elapse w 0 p)) \<or>
   (\<exists>y. evaluate w (scrollByScript w step) p = Returns () (elapse w 0 (p\<lparr>scrollY := y\<rparr>)))"
  by (auto simp: evaluate_def scrollByScript_def split: option.splits)

lemma scrollLoop_frame:
  assumes f: "\<And>w d q. f (elapse w d q) = f q" and g: "\<And>q y. f (q\<lparr>scrollY := y\<rparr>) = f q"
  shows "f (finalState (scrollLoop w T step S s l c p)) = f p"
proof (induction w T step S s l c p rule: scrollLoop.induct)
  case (1 w T step S s l c p)
  show ?case
  proof (cases "int (clock p) - int s < T")
    case False
    then show ?thesis by (subst scrollLoop.simps) simp
  next
    case guard: True
    from getScrollMetrics_cases [of w p] show ?thesis
    proof (elim disjE exE)
      fix e assume "getScrollMetrics w p = Throws e (elapse w 0 p)"
      then show ?thesis using guard by (subst scrollLoop.simps) (simp add: f)
    next
      fix m assume g1: "getScrollMetrics w p = Returns m (elapse w 0 p)"
      show ?thesis
      proof (cases "documentHeight m \<le> scrollTop m + viewportHeight m")
        case True
        then show ?thesis using guard g1 by (subst scrollLoop.simps) (simp add: f)
      next
        case nb: False
        show ?thesis
        proof (cases "documentHeight m = l \<and> STABILITY_THRESHOLD \<le> Suc c")
          case True
          then show ?thesis using guard g1 nb by (subst scrollLoop.simps) (simp add: f)
        next
          case ns: False
          from scrollBy_cases [of w step "elapse w 0 p"] show ?thesis
          proof (elim disjE exE)
            fix e
            assume "evaluate w (scrollByScript w step) (elapse w 0 p) =
                Throws e (elapse w 0 (elapse w 0 p))"
            then show ?thesis
              using guard g1 nb ns by (subst scrollLoop.simps) (auto simp: f)
          next
            fix y
            let ?p2 = "elapse w 0 (elapse w 0 p\<lparr>scrollY := y\<rparr>)"
            assume g2: "evaluate w (scrollByScript w step) (elapse w 0 p) = Returns () ?p2"
            have w3: "f (finalState (waitForLazyLoad w S ?p2)) = f p"
              using waitForLazyLoad_frame [of f w S ?p2, OF f] by (simp add: f g)
            show ?thesis
            proof (cases "waitForLazyLoad w S ?p2")
              case (Throws e p3)
              then show ?thesis
                using guard g1 nb ns g2 w3 by (subst scrollLoop.simps) auto
            next
              case (Returns x p3)
              then show ?thesis
                using guard g1 nb ns g2 w3 "1.IH" [OF guard g1 nb ns g2 Returns]
                by (subst scrollLoop.simps) (auto simp: f sleep_def)
            qed
          qed
        qed
      qed
    qed
  qed
qed

lemma handleState_simps [simp]:
  "handleState (elapse w d p) = handleState p"
  "handleState (sleep w d p) = handleState p"
  "handleState (writeStyle e s p) = handleState p"
  "handleState (p\<lparr>scrollY := y\<rparr>) = handleState p"
  "handleState (p\<lparr>originalStickyStyles := x\<rparr>) = handleState p"
  "handleState (p\<lparr>viewport := v\<rparr>) = handleState p"
  "handleState (p\<lparr>defaultTimeout := t\<rparr>) = handleState p"
  by (simp_all add: handleState_def sleep_def elapse_def writeStyle_def)

lemma finalState_andThen:
  "finalState (andThen m f) = (case m of Throws e s \<Rightarrow> s | Returns v s \<Rightarrow> finalState (f v s))"
  by (simp add: andThen_def split: outcome.splits)

lemma handleState_andThen:
  assumes "handleState (finalState m) = handleState p"
    and "\<And>v s. handleState s = handleState p \<Longrightarrow> handleState (finalState (f v s)) = handleState p"
  shows "handleState (finalState (andThen m f)) = handleState p"
  using assms by (cases m) (auto simp: andThen_def)

lemma handleState_evaluate:
  assumes "\<And>q. handleState (snd (script q)) = handleState q"
  shows "handleState (finalState (evaluate w script p)) = handleState p"
  using assms [of p] by (auto simp: evaluate_def split: option.splits prod.splits)

lemma handleState_flattenElement [simp]: "handleState (flattenElement e p) = handleState p"
  by (simp add: flattenElement_def setProperty_def Let_def)

lemma handleState_neutralizeAll [simp]:
  "handleState (snd (neutralizeAll es acc p)) = handleState p"
  by (induction es arbitrary: acc p) auto

lemma handleState_restoreAll [simp]: "handleState (restoreAll recs p) = handleState p"
  by (induction recs p rule: restoreAll.induct) (auto simp: setCssText_def)

lemma handleState_handleStickyElements:
  "handleState (finalState (handleStickyElements w p)) = handleState p"
  unfolding handleStickyElements_def
proof (rule handleState_evaluate)
  fix q
  obtain recs q' where m: "neutralizeAll (stickyElements q) [] q = (recs, q')"
    by (cases "neutralizeAll (stickyElements q) [] q") auto
  then have "handleState q' = handleState q"
    using handleState_neutralizeAll [of "stickyElements q" "[]" q] by (simp del: handleState_neutralizeAll)
  then show "handleState (snd (handleStickyScript q)) = handleState q"
    using m by (simp add: handleStickyScript_def modifyStickyElements_def)
qed

lemma handleState_restoreStickyElements:
  "handleState (finalState (restoreStickyElements w p)) = handleState p"
  unfolding restoreStickyElements_def
  by (rule handleState_evaluate) (simp add: restoreStickyScript_def split: option.splits)

lemma handleState_pageOp: "handleState (finalState (pageOp w p)) = handleState p"
  unfolding pageOp_def by (rule handleState_evaluate) simp

lemma handleState_waitForLazyLoad:
  "handleState (finalState (waitForLazyLoad w T p)) = handleState p"
  by (rule waitForLazyLoad_frame) simp

lemma handleState_getScrollMetrics:
  "handleState (finalState (getScrollMetrics w p)) = handleState p"
  unfolding getScrollMetrics_def
  by (rule handleState_evaluate) (simp add: scrollMetricsScript_def)

lemma handleState_intelligentScroll:
  "handleState (finalState (intelligentScroll w options p)) = handleState p"
  unfolding intelligentScroll_def
proof (rule handleState_andThen)
  show "handleState (finalState (scrollLoop w (orDefault (maxTimeout options) 30000)
      (orDefault (scrollStep options) 250) (orDefault (stabilityTimeout options) 5000)
      (clock p) 0 0 p)) = handleState p"
    by (rule scrollLoop_frame) simp_all
next
  fix v s assume s: "handleState s = handleState p"
  show "handleState (finalState (andThen (evaluate w scrollToTopScript s)
      (\<lambda>_ p2. Returns v (sleep w 500 p2)))) = handleState p"
  proof (rule handleState_andThen)
    show "handleState (finalState (evaluate w scrollToTopScript s)) = handleState p"
      using handleState_evaluate [of scrollToTopScript w s] s
      by (simp add: scrollToTopScript_def)
  qed simp
qed

lemma handleState_prepareFullPage:
  "handleState (finalState (prepareFullPage w options p)) = handleState p"
  unfolding prepareFullPage_def
proof (rule handleState_andThen [OF handleState_getScrollMetrics], goal_cases)
  case (1 m s)
  show ?case
  proof (rule handleState_andThen, goal_cases)
    case 1
    show ?case using handleState_intelligentScroll [of w _ s] \<open>handleState s = handleState p\<close>
      by simp
  next
    case (2 v s2)
    show ?case
    proof (rule handleState_andThen, goal_cases)
      case 1
      show ?case using handleState_waitForLazyLoad [of w 2000 s2] 2 by simp
    qed simp
  qed
qed

lemma handleState_setupPage:
  "handleState (finalState (setupPage w options p)) = handleState p"
  unfolding setupPage_def
proof (rule handleState_andThen, goal_cases)
  case 1
  show ?case by (rule handleState_evaluate) (simp add: setViewportScript_def)
qed simp

lemma handleState_navigateAndPrepare:
  "handleState (finalState (navigateAndPrepare w p)) = handleState p"
  unfolding navigateAndPrepare_def blockChatWidgets_def
proof (rule handleState_andThen, goal_cases)
  case 1
  show ?case
  proof (rule handleState_andThen [OF handleState_pageOp], goal_cases)
    case (1 v s)
    then show ?case using handleState_pageOp [of w s] by simp
  qed
next
  case (2 v s)
  show ?case
  proof (rule handleState_andThen, goal_cases)
    case 1
    show ?case using handleState_pageOp [of w s] 2 by simp
  next
    case (2 v2 s2)
    show ?case
    proof (rule handleState_andThen, goal_cases)
      case 1
      show ?case using handleState_handleStickyElements [of w s2] 2 by simp
    qed simp
  qed
qed

text \<open>
  \<^verbatim>\<open>captureScreenshot\<close> and the whole pipeline on a handle: when they return, the image is
  the one the browser rendered for the arguments computed from the options, that capture
  is the one capture made, and the handle is closed; when they throw, the handle is as
  open as it was.
\<close>

lemma captureScreenshot_fate:
  "(case captureScreenshot w options p of
      Returns shot p' \<Rightarrow>
        shot = rendered w (screenshotArgsOf options) \<and> closed p' \<and>
        screenshotCalls p' = screenshotCalls p @ [screenshotArgsOf options]
    | Throws e p' \<Rightarrow> closed p' = closed p)"
proof -
  let ?prep = "if fullPage options = Some True then prepareFullPage w options p else Returns () p"
  have prep: "handleState (finalState ?prep) = handleState p"
    using handleState_prepareFullPage [of w options p] by simp
  show ?thesis
  proof (cases ?prep)
    case (Throws e p1)
    then show ?thesis
      using prep by (simp add: captureScreenshot_def andThen_def handleState_def)
  next
    case (Returns u p1)
    then have p1: "handleState p1 = handleState p" using prep by simp
    show ?thesis
    proof (cases "pageFault w (tick p1)")
      case (Some e)
      then show ?thesis
        using Returns p1
        by (simp add: captureScreenshot_def andThen_def evaluate_def handleState_def)
    next
      case None
      let ?p2 = "elapse w 0 (p1\<lparr>screenshotCalls := screenshotCalls p1 @ [screenshotArgsOf options]\<rparr>)"
      have shot: "evaluate w (screenshotScript w (screenshotArgsOf options)) p1 =
          Returns (rendered w (screenshotArgsOf options)) ?p2"
        using None by (simp add: evaluate_def screenshotScript_def)
      have p2: "closed ?p2 = closed p"
        "screenshotCalls ?p2 = screenshotCalls p @ [screenshotArgsOf options]"
        using p1 by (simp_all add: handleState_def)
      have r: "handleState (finalState (restoreStickyElements w ?p2)) = handleState ?p2"
        by (rule handleState_restoreStickyElements)
      show ?thesis
      proof (cases "restoreStickyElements w ?p2")
        case (Throws e p3)
        then show ?thesis
          using Returns shot r p2
          by (simp add: captureScreenshot_def andThen_def handleState_def)
      next
        case r3: (Returns u3 p3)
        then have p3: "closed p3 = closed p"
          "screenshotCalls p3 = screenshotCalls p @ [screenshotArgsOf options]"
          using r p2 by (simp_all add: handleState_def)
        show ?thesis
          using Returns shot r3 p3
          by (simp add: captureScreenshot_def andThen_def evaluate_def closeScript_def
              split: option.splits)
      qed
    qed
  qed
qed

lemma pipeline_fate:
  "(case pipeline w options b p of
      Returns shot p' \<Rightarrow>
        shot = rendered w (screenshotArgsOf options) \<and> closed p' \<and>
        screenshotCalls p' = screenshotCalls p @ [screenshotArgsOf options]
    | Throws e p' \<Rightarrow> closed p' = closed p)"
proof -
  let ?pre = "andThen (setupPage w options p)
       (\<lambda>_ p1. andThen (if b then pageOp w p1 else Returns () p1)
          (\<lambda>_ p2. navigateAndPrepare w p2))"
  have pre: "handleState (finalState ?pre) = handleState p"
  proof (rule handleState_andThen [OF handleState_setupPage], goal_cases)
    case (1 v s)
    show ?case
    proof (rule handleState_andThen, goal_cases)
      case 1
      show ?case using handleState_pageOp [of w s] \<open>handleState s = handleState p\<close> by simp
    next
      case (2 v2 s2)
      then show ?case using handleState_navigateAndPrepare [of w s2] by simp
    qed
  qed
  have split: "pipeline w options b p = andThen ?pre (\<lambda>_ p3. captureScreenshot w options p3)"
    by (simp add: pipeline_def andThen_def split: outcome.splits)
  show ?thesis
  proof (cases ?pre)
    case (Throws e p1)
    then show ?thesis using pre unfolding split by (simp add: andThen_def handleState_def)
  next
    case (Returns u p3)
    then have "handleState p3 = handleState p" using pre by simp
    then show ?thesis
      using Returns captureScreenshot_fate [of w options p3]
      unfolding split by (simp add: andThen_def handleState_def split: outcome.splits)
  qed
qed

lemma takeScreenshot_closes_on_return:
  assumes "takeScreenshot w options p0 h = Returns shot h'"
  shows "\<exists>p. pageHandle h' = Some p \<and> closed p"
  using assms pipeline_fate [where w = w and options = options and b = True and p = p0]
    pipeline_fate [where w = w and options = options and b = "blocker h" and p = p0]
  by (auto simp: takeScreenshot_def andThen_def saveOutput_def initialize_def
      split: outcome.splits option.splits if_splits)

lemma takeScreenshot_leaks_on_throw:
  assumes "takeScreenshot w options p0 h = Throws e h'"
    and "pageHandle h = None" and "pageHandle h' = Some p" and "outputPath options = None"
  shows "closed p = closed p0"
  using assms pipeline_fate [where w = w and options = options and b = True and p = p0]
    pipeline_fate [where w = w and options = options and b = "blocker h" and p = p0]
  by (auto simp: takeScreenshot_def andThen_def saveOutput_def initialize_def
      split: outcome.splits option.splits if_splits)

lemma thrown_Some: "thrown m = Some e \<Longrightarrow> m = Throws e (finalState m)"
  by (cases m) auto

text \<open>
  C1 fails on the code. The page handle is closed at the end of \<^verbatim>\<open>captureScreenshot\<close> only,
  so it is closed when the request succeeds and left open when a step before that throws:
  for the request below the navigation times out, \<^verbatim>\<open>takeScreenshot\<close> throws that error, and
  the handle it created is still open. On the calm page the same request returns the image
  and its handle is closed.
\<close>

theorem takeScreenshot_leaves_page_open:
  "thrown (takeScreenshot unreachableEnv exampleOptions examplePage readyHost) =
     Some navigationTimeout \<and>
   map_option closed
     (pageHandle (finalState (takeScreenshot unreachableEnv exampleOptions examplePage readyHost))) =
     Some False \<and>
   returned (takeScreenshot calmEnv exampleOptions examplePage readyHost) = Some [137, 80, 78, 71] \<and>
   map_option closed
     (pageHandle (finalState (takeScreenshot calmEnv exampleOptions examplePage readyHost))) =
     Some True"
  by code_simp

lemma takeScreenshot_quality:
  assumes args: "screenshotArgsOf (options\<lparr>quality := q\<rparr>) = screenshotArgsOf options"
  shows "takeScreenshot w (options\<lparr>quality := q\<rparr>) p0 h = takeScreenshot w options p0 h"
proof -
  have cap: "\<And>p. captureScreenshot w (options\<lparr>quality := q\<rparr>) p = captureScreenshot w options p"
    by (simp add: captureScreenshot_def args prepareFullPage_def)
  have pipe: "\<And>b. pipeline w (options\<lparr>quality := q\<rparr>) b p0 = pipeline w options b p0"
    by (simp add: pipeline_def cap setupPage_def)
  have save: "\<And>s h'. saveOutput w (options\<lparr>quality := q\<rparr>) s h' = saveOutput w options s h'"
    by (simp add: saveOutput_def)
  show ?thesis
    unfolding takeScreenshot_def pipe save ..
qed

text \<open>
  C6. For a request whose format is \<^verbatim>\<open>png\<close>, the capture is called with type \<^verbatim>\<open>png\<close> and no
  quality; replacing the request's quality by any other value (or none) leaves the
  capture arguments, the outcome of \<^verbatim>\<open>takeScreenshot\<close> and the response of the HTTP
  handler the same; the content type is \<^verbatim>\<open>image/png\<close>; and when the pipeline returns, the
  one capture it made had these arguments.
\<close>

theorem png_ignores_quality:
  "format options = Some Png \<longrightarrow>
     argType (screenshotArgsOf options) = Png \<and>
     argQuality (screenshotArgsOf options) = None \<and>
     screenshotArgsOf (options\<lparr>quality := q\<rparr>) = screenshotArgsOf options \<and>
     takeScreenshot w (options\<lparr>quality := q\<rparr>) p0 h = takeScreenshot w options p0 h \<and>
     screenshotHandler w (options\<lparr>quality := q\<rparr>) p0 h = screenshotHandler w options p0 h \<and>
     contentType options = ''image/png'' \<and>
     (\<forall>shot p'. pipeline w options b p0 = Returns shot p' \<longrightarrow>
        shot = rendered w (screenshotArgsOf options) \<and>
        screenshotCalls p' = screenshotCalls p0 @ [screenshotArgsOf options])"
proof
  assume png: "format options = Some Png"
  have args: "screenshotArgsOf (options\<lparr>quality := q\<rparr>) = screenshotArgsOf options"
    using png by (simp add: screenshotArgsOf_def)
  note take = takeScreenshot_quality [OF args]
  have http: "screenshotHandler w (options\<lparr>quality := q\<rparr>) p0 h = screenshotHandler w options p0 h"
  proof -
    have "httpOptions (options\<lparr>quality := q\<rparr>) = (httpOptions options)\<lparr>quality := q\<rparr>"
      by (simp add: httpOptions_def)
    moreover have "screenshotArgsOf ((httpOptions options)\<lparr>quality := q\<rparr>) =
          screenshotArgsOf (httpOptions options)"
      using png by (simp add: screenshotArgsOf_def httpOptions_def)
    ultimately show ?thesis
      using takeScreenshot_quality [where options = "httpOptions options" and q = q and w = w
          and ?p0.0 = p0 and h = h]
      by (simp add: screenshotHandler_def contentType_def split: outcome.splits)
  qed
  have log: "\<forall>shot p'. pipeline w options b p0 = Returns shot p' \<longrightarrow>
        shot = rendered w (screenshotArgsOf options) \<and>
        screenshotCalls p' = screenshotCalls p0 @ [screenshotArgsOf options]"
    using pipeline_fate [where w = w and options = options and b = b and p = p0] by auto
  show "argType (screenshotArgsOf options) = Png \<and>
     argQuality (screenshotArgsOf options) = None \<and>
     screenshotArgsOf (options\<lparr>quality := q\<rparr>) = screenshotArgsOf options \<and>
     takeScreenshot w (options\<lparr>quality := q\<rparr>) p0 h = takeScreenshot w options p0 h \<and>
     screenshotHandler w (options\<lparr>quality := q\<rparr>) p0 h = screenshotHandler w options p0 h \<and>
     contentType options = ''image/png'' \<and>
     (\<forall>shot p'. pipeline w options b p0 = Returns shot p' \<longrightarrow>
        shot = rendered w (screenshotArgsOf options) \<and>
        screenshotCalls p' = screenshotCalls p0 @ [screenshotArgsOf options])"
    using png args take http log
    by (simp add: screenshotArgsOf_def contentType_def orDefault_def)
qed

text \<open>The PNG request with quality 90, and the same request with quality 10.\<close>

theorem png_ignores_quality_witness:
  "format exampleOptions = Some Png \<and> quality exampleOptions = Some 90 \<and>
   argQuality (screenshotArgsOf exampleOptions) = None \<and>
   screenshotArgsOf (exampleOptions\<lparr>quality := Some 10\<rparr>) = screenshotArgsOf exampleOptions \<and>
   takeScreenshot calmEnv (exampleOptions\<lparr>quality := Some 10\<rparr>) examplePage readyHost =
     takeScreenshot calmEnv exampleOptions examplePage readyHost \<and>
   contentType exampleOptions = ''image/png''"
  using png_ignores_quality [of exampleOptions "Some 10" calmEnv examplePage readyHost]
  by (simp add: exampleOptions_def)

section \<open>Properties of the HTTP surface\<close>

lemma takeScreenshot_no_output:
  "outputPath options = None \<Longrightarrow> files (finalState (takeScreenshot w options p0 h)) = files h"
  by (auto simp: takeScreenshot_def andThen_def saveOutput_def initialize_def
      split: outcome.splits option.splits)

lemma takeScreenshot_writes:
  "outputPath options = Some path \<Longrightarrow> path \<noteq> [] \<Longrightarrow>
   takeScreenshot w options p0 h = Returns shot h' \<Longrightarrow> files h' = files h @ [(path, shot)]"
  by (auto simp: takeScreenshot_def andThen_def saveOutput_def initialize_def
      split: outcome.splits option.splits if_splits)

text \<open>
  C10. Both HTTP handlers call \<^verbatim>\<open>takeScreenshot\<close> with \<^verbatim>\<open>outputPath\<close> undefined, whatever
  the body holds, and no file is written by them: the files are the same after the
  \<^verbatim>\<open>POST /screenshot\<close> handler and after every item of a batch. A direct call with a
  non-empty output path that returns has written the image to that path.
\<close>

theorem http_never_writes_files:
  "outputPath (httpOptions body) = None \<and>
   files (snd (screenshotHandler w body p0 h)) = files h \<and>
   (\<forall>out \<in> set (batchOutcomes ws urls ps h). files (finalState out) = files h) \<and>
   (\<forall>path shot h'. outputPath options = Some path \<and> path \<noteq> [] \<and>
      takeScreenshot w options p0 h = Returns shot h' \<longrightarrow> files h' = files h @ [(path, shot)])"
proof -
  have none: "outputPath (httpOptions body) = None" for body
    by (simp add: httpOptions_def)
  have single: "files (snd (screenshotHandler w body p0 h)) = files h"
    using takeScreenshot_no_output [OF none, of w body p0 h]
    by (cases "takeScreenshot w (httpOptions body) p0 h") (simp_all add: screenshotHandler_def)
  have batch: "\<forall>out \<in> set (batchOutcomes ws urls ps h). files (finalState out) = files h"
    using takeScreenshot_no_output [OF none]
    by (auto simp: batchOutcomes_def)
  show ?thesis
    using none single batch takeScreenshot_writes by blast
qed

text \<open>
  A body with an output path: the HTTP handlers write nothing, the direct call writes the
  file.
\<close>

theorem http_never_writes_files_witness:
  "outputPath fileOptions = Some ''screenshots/shot.png'' \<and>
   files (snd (screenshotHandler calmEnv fileOptions examplePage readyHost)) = [] \<and>
   files (finalState (takeScreenshot calmEnv fileOptions examplePage readyHost)) =
     [(''screenshots/shot.png'', [137, 80, 78, 71])] \<and>
   list_all (\<lambda>out. files (finalState out) = [])
     (batchOutcomes batchEnvs [fileOptions, unreachableOptions] batchPages readyHost)"
proof -
  note inst = http_never_writes_files [where body = fileOptions and w = calmEnv
      and ?p0.0 = examplePage and h = readyHost and ws = batchEnvs
      and urls = "[fileOptions, unreachableOptions]" and ps = batchPages and options = fileOptions]
  have r: "returned (takeScreenshot calmEnv fileOptions examplePage readyHost) =
      Some [137, 80, 78, 71]"
    by code_simp
  have path: "outputPath fileOptions = Some ''screenshots/shot.png''"
    by (simp add: fileOptions_def)
  have empty: "files readyHost = []" by (simp add: readyHost_def)
  have a: "files (snd (screenshotHandler calmEnv fileOptions examplePage readyHost)) = []"
    using inst empty by simp
  have b: "files (finalState (takeScreenshot calmEnv fileOptions examplePage readyHost)) =
     [(''screenshots/shot.png'', [137, 80, 78, 71])]"
    using inst returned_Some [OF r] path empty by auto
  have c: "list_all (\<lambda>out. files (finalState out) = [])
     (batchOutcomes batchEnvs [fileOptions, unreachableOptions] batchPages readyHost)"
    using inst empty by (simp add: list_all_iff)
  show ?thesis using path a b c by blast
qed

text \<open>
  C7. The batch handler always answers with the array of results: it has one entry for
  each request, in the order of the requests; the entry's url is the request's; when the
  capture returned, the entry has \<^verbatim>\<open>success: true\<close> and the encoded image and no error;
  when it threw, the entry has \<^verbatim>\<open>success: false\<close>, no data and the error's message.
\<close>

theorem batch_isolates_failures:
  "\<exists>entries. batchHandler toBase64 ws urls ps h = BatchResponse entries \<and>
     length entries = length urls \<and>
     (\<forall>i < length urls.
        entryUrl (entries ! i) = url (urls ! i) \<and>
        (case takeScreenshot (ws i) (httpOptions (urls ! i)) (ps i) h of
           Returns v _ \<Rightarrow>
             success (entries ! i) \<and> entryData (entries ! i) = Some (toBase64 v) \<and>
             entryError (entries ! i) = None
         | Throws e _ \<Rightarrow>
             \<not> success (entries ! i) \<and> entryData (entries ! i) = None \<and>
             entryError (entries ! i) = Some (message e)))"
proof -
  let ?entries = "map (\<lambda>(options, out). batchEntryOf toBase64 options (settle out))
          (zip urls (batchOutcomes ws urls ps h))"
  have len: "length (batchOutcomes ws urls ps h) = length urls"
    by (simp add: batchOutcomes_def)
  have nth: "batchOutcomes ws urls ps h ! i =
      takeScreenshot (ws i) (httpOptions (urls ! i)) (ps i) h" if "i < length urls" for i
    using that by (simp add: batchOutcomes_def)
  have "\<forall>i < length urls.
        entryUrl (?entries ! i) = url (urls ! i) \<and>
        (case takeScreenshot (ws i) (httpOptions (urls ! i)) (ps i) h of
           Returns v _ \<Rightarrow>
             success (?entries ! i) \<and> entryData (?entries ! i) = Some (toBase64 v) \<and>
             entryError (?entries ! i) = None
         | Throws e _ \<Rightarrow>
             \<not> success (?entries ! i) \<and> entryData (?entries ! i) = None \<and>
             entryError (?entries ! i) = Some (message e))"
    using len nth by (auto simp: batchEntryOf_def split: outcome.splits)
  moreover have "length ?entries = length urls" using len by simp
  ultimately show ?thesis
    unfolding batchHandler_def by blast
qed

text \<open>
  Two requests, the second to a page whose navigation times out: two entries, the first
  a success with its data, the second a failure with the message.
\<close>

theorem batch_isolates_failures_witness:
  "\<exists>entries.
     batchHandler base64 batchEnvs [exampleOptions, unreachableOptions] batchPages readyHost =
       BatchResponse entries \<and>
     length entries = 2 \<and>
     entryUrl (entries ! 0) = ''https://example.com'' \<and> success (entries ! 0) \<and>
     entryData (entries ! 0) = Some ''iVBORw=='' \<and> entryError (entries ! 0) = None \<and>
     entryUrl (entries ! 1) = ''https://unreachable.invalid'' \<and> \<not> success (entries ! 1) \<and>
     entryData (entries ! 1) = None \<and>
     entryError (entries ! 1) = Some ''Navigation timeout of 30000 ms exceeded''"
proof -
  have r0: "returned (takeScreenshot calmEnv (httpOptions exampleOptions) examplePage readyHost) =
      Some [137, 80, 78, 71]"
    by code_simp
  have r1: "thrown (takeScreenshot unreachableEnv (httpOptions unreachableOptions) examplePage
      readyHost) = Some navigationTimeout"
    by code_simp
  have b: "base64 [137, 80, 78, 71] = ''iVBORw==''"
    by code_simp
  obtain entries where e:
    "batchHandler base64 batchEnvs [exampleOptions, unreachableOptions] batchPages readyHost =
       BatchResponse entries"
    "length entries = length [exampleOptions, unreachableOptions]"
    "\<forall>i < length [exampleOptions, unreachableOptions].
        entryUrl (entries ! i) = url ([exampleOptions, unreachableOptions] ! i) \<and>
        (case takeScreenshot (batchEnvs i) (httpOptions ([exampleOptions, unreachableOptions] ! i))
                (batchPages i) readyHost of
           Returns v _ \<Rightarrow>
             success (entries ! i) \<and> entryData (entries ! i) = Some (base64 v) \<and>
             entryError (entries ! i) = None
         | Throws e _ \<Rightarrow>
             \<not> success (entries ! i) \<and> entryData (entries ! i) = None \<and>
             entryError (entries ! i) = Some (message e))"
    using batch_isolates_failures [of base64 batchEnvs "[exampleOptions, unreachableOptions]"
        batchPages readyHost]
    by blast
  have e0: "entryUrl (entries ! 0) = ''https://example.com'' \<and> success (entries ! 0) \<and>
     entryData (entries ! 0) = Some ''iVBORw=='' \<and> entryError (entries ! 0) = None"
    using e(3) [rule_format, of 0] returned_Some [OF r0] b
    by (simp add: batchEnvs_def batchPages_def exampleOptions_def split: outcome.splits)
  have e1: "entryUrl (entries ! 1) = ''https://unreachable.invalid'' \<and> \<not> success (entries ! 1) \<and>
     entryData (entries ! 1) = None \<and>
     entryError (entries ! 1) = Some ''Navigation timeout of 30000 ms exceeded''"
    using e(3) [rule_format, of 1] thrown_Some [OF r1]
    by (simp add: batchEnvs_def batchPages_def unreachableOptions_def exampleOptions_def
        navigationTimeout_def split: outcome.splits)
  show ?thesis using e(1,2) e0 e1 by auto
qed

end
